theory Spec2Isabelle
  imports Complex_Main
begin

section \<open>Data model of the workflow executor\<close>

text \<open>
  The executor of \<^verbatim>\<open>backend/services/workflow_executor.py\<close> receives the graph as two
  lists of dictionaries. Of a node it reads \<^verbatim>\<open>node['id']\<close> and
  \<^verbatim>\<open>node['data']['componentType']\<close>, of an edge \<^verbatim>\<open>edge['source']\<close> and
  \<^verbatim>\<open>edge['target']\<close>. The field \<^verbatim>\<open>id\<close> is called \<open>node_id\<close> here because
  \<open>id\<close> is the identity function of HOL.
\<close>

record node =
  node_id :: string
  componentType :: string

record edge =
  source :: string
  target :: string

text \<open>
  Values found in a node's configuration dictionary. They come from a JSON request
  body, so a key may hold a string, a boolean, a number or \<^verbatim>\<open>null\<close>. Numbers are
  only passed on (the temperature), never computed with.
\<close>

datatype jval = JNone | JBool bool | JNum rat | JStr string

text \<open>Python's truth value of such a value, as tested by \<^verbatim>\<open>if x:\<close>.\<close>

fun truthy :: "jval \<Rightarrow> bool" where
  "truthy JNone = False"
| "truthy (JBool b) = b"
| "truthy (JNum x) = (x \<noteq> 0)"
| "truthy (JStr s) = (s \<noteq> [])"

text \<open>
  Exceptions as values. \<open>StopIteration\<close> is what \<^verbatim>\<open>next(...)\<close> raises on an exhausted
  generator without a default (inside the coroutine the interpreter re-raises it as a
  \<^verbatim>\<open>RuntimeError\<close>). \<open>ExternalError\<close> stands for whatever an external client library
  raises; its argument identifies the failure.
\<close>

datatype error =
    ValueError string
  | KeyError string
  | StopIteration
  | IndexError
  | ExternalError string

section \<open>The execution order resolver\<close>

text \<open>
  \<^verbatim>\<open>graph = {node['id']: [] for node in nodes}\<close> followed by
  \<^verbatim>\<open>graph[edge['source']].append(edge['target'])\<close> for every edge. Subscripting the
  dictionary with a source that is no node id raises \<^verbatim>\<open>KeyError\<close>.
\<close>

type_synonym graph = "string \<rightharpoonup> string list"

definition init_graph :: "node list \<Rightarrow> graph" where
  "init_graph nodes = fold (\<lambda>n g. g(node_id n \<mapsto> [])) nodes Map.empty"

fun add_edges :: "edge list \<Rightarrow> graph \<Rightarrow> error + graph" where
  "add_edges [] graph = Inr graph"
| "add_edges (e # es) graph =
     (case graph (source e) of
        None \<Rightarrow> Inl (KeyError (source e))
      | Some ts \<Rightarrow> add_edges es (graph(source e \<mapsto> ts @ [target e])))"

text \<open>\<^verbatim>\<open>graph.get(node_id, [])\<close>\<close>

definition graph_get :: "graph \<Rightarrow> string \<Rightarrow> string list" where
  "graph_get graph n = (case graph n of None \<Rightarrow> [] | Some ts \<Rightarrow> ts)"

text \<open>
  \<^verbatim>\<open>next((n['id'] for n in nodes if n['data']['componentType'] == 'userQuery'), None)\<close>
\<close>

definition is_userQuery :: "node \<Rightarrow> bool" where
  "is_userQuery n = (componentType n = ''userQuery'')"

definition find_start :: "node list \<Rightarrow> string option" where
  "find_start nodes = map_option node_id (List.find is_userQuery nodes)"

text \<open>
  The nested function \<^verbatim>\<open>dfs\<close> updates the two enclosing variables \<^verbatim>\<open>order\<close> and
  \<^verbatim>\<open>visited\<close>; here they are passed along as a pair. Nothing in the source bounds
  the recursion, so the traversal is defined as a partial function: the value \<open>None\<close>
  means that the call does not return. \<open>dfs_for\<close> is the loop
  \<^verbatim>\<open>for neighbor in graph.get(node_id, []): dfs(neighbor)\<close> with the body of
  \<^verbatim>\<open>dfs\<close> written out for each neighbor; \<open>dfs\<close> itself follows.
  (The interpreter's recursion limit is not modelled.)
\<close>

partial_function (option) dfs_for ::
  "graph \<Rightarrow> string list \<Rightarrow> string list \<times> string set \<Rightarrow> (string list \<times> string set) option"
where
  "dfs_for graph nbrs st =
     (case nbrs of
        [] \<Rightarrow> Some st
      | neighbor # rest \<Rightarrow>
          Option.bind
            (case st of (order, visited) \<Rightarrow>
               if neighbor \<in> visited then Some st
               else dfs_for graph (graph_get graph neighbor)
                      (order @ [neighbor], insert neighbor visited))
            (\<lambda>st'. dfs_for graph rest st'))"

definition dfs :: "graph \<Rightarrow> string \<Rightarrow> string list \<times> string set \<Rightarrow> (string list \<times> string set) option" where
  "dfs graph n st =
     (case st of (order, visited) \<Rightarrow>
        if n \<in> visited then Some st
        else dfs_for graph (graph_get graph n) (order @ [n], insert n visited))"

definition build_execution_order :: "node list \<Rightarrow> edge list \<Rightarrow> (error + string list) option" where
  "build_execution_order nodes edges =
     (case add_edges edges (init_graph nodes) of
        Inl err \<Rightarrow> Some (Inl err)
      | Inr graph \<Rightarrow>
          (case find_start nodes of
             None \<Rightarrow> Some (Inl (ValueError ''No User Query component found''))
           | Some start_node \<Rightarrow>
               if start_node = [] then Some (Inl (ValueError ''No User Query component found''))
               else map_option (\<lambda>st. Inr (fst st)) (dfs graph start_node ([], {}))))"

section \<open>External capabilities\<close>

text \<open>
  The executor reaches the outside world through the ChromaDB client, the OpenAI and
  Gemini client libraries and \<^verbatim>\<open>LLMService.web_search\<close>. Each such call is an entry
  of the run's trace, and the trace also records every iteration of the executor's loop
  (\<open>Step\<close>, with the node id taken from the order), so that what a run did and did not
  do can be read off it. Embedding vectors and distances are lists of numbers that are
  only handed on.
\<close>

type_synonym embedding = "rat list"

type_synonym message = "string \<times> jval"

datatype call =
    Step string
  | GetCollection jval
  | OpenAIEmbeddings "string list"
  | GeminiEmbedContent string
  | CollectionQuery jval embedding int
  | WebSearch string jval
  | OpenAIChat jval "message list" jval
  | GeminiGenerate jval string

text \<open>
  What \<^verbatim>\<open>collection.query\<close> returns: \<^verbatim>\<open>results['documents']\<close> and
  \<^verbatim>\<open>results['distances']\<close>, one inner list per query embedding.
\<close>

record query_result =
  documents :: "string list list"
  distances :: "rat list list"

text \<open>
  The answer of a capability may depend on everything that happened before, so each
  one is a function of the trace so far and of the arguments of the call; \<open>Inl\<close>
  is the exception it raises. \<open>web_search\<close> is \<^verbatim>\<open>LLMService.web_search\<close> taken as a
  whole (one HTTP request and the formatting of its first three hits).
\<close>

record capabilities =
  get_collection :: "call list \<Rightarrow> jval \<Rightarrow> error option"
  openai_embeddings :: "call list \<Rightarrow> string list \<Rightarrow> error + embedding list"
  gemini_embed_content :: "call list \<Rightarrow> string \<Rightarrow> error + embedding"
  collection_query :: "call list \<Rightarrow> jval \<Rightarrow> embedding \<Rightarrow> int \<Rightarrow> error + query_result"
  web_search :: "call list \<Rightarrow> string \<Rightarrow> jval \<Rightarrow> error + string"
  openai_chat :: "call list \<Rightarrow> jval \<Rightarrow> message list \<Rightarrow> jval \<Rightarrow> error + string"
  gemini_generate :: "call list \<Rightarrow> jval \<Rightarrow> string \<Rightarrow> error + string"

section \<open>The embedding service: \<^verbatim>\<open>query_collection\<close>\<close>

definition get_openai_embeddings ::
  "capabilities \<Rightarrow> string list \<Rightarrow> call list \<Rightarrow> (error + embedding list) \<times> call list" where
  "get_openai_embeddings env texts tr =
     (openai_embeddings env tr texts, tr @ [OpenAIEmbeddings texts])"

fun get_gemini_embeddings ::
  "capabilities \<Rightarrow> string list \<Rightarrow> call list \<Rightarrow> (error + embedding list) \<times> call list" where
  "get_gemini_embeddings env [] tr = (Inr [], tr)"
| "get_gemini_embeddings env (text # texts) tr =
     (case gemini_embed_content env tr text of
        Inl err \<Rightarrow> (Inl err, tr @ [GeminiEmbedContent text])
      | Inr emb \<Rightarrow>
          (case get_gemini_embeddings env texts (tr @ [GeminiEmbedContent text]) of
             (Inl err, tr') \<Rightarrow> (Inl err, tr')
           | (Inr embs, tr') \<Rightarrow> (Inr (emb # embs), tr')))"

text \<open>\<^verbatim>\<open>xs[0]\<close>\<close>

definition first_item :: "'a list \<Rightarrow> error + 'a" where
  "first_item xs = (case xs of [] \<Rightarrow> Inl IndexError | x # _ \<Rightarrow> Inr x)"

text \<open>
  One retrieved chunk, \<^verbatim>\<open>{"content": doc, "distance": dist}\<close>, is a pair here.
\<close>

definition query_collection ::
  "capabilities \<Rightarrow> jval \<Rightarrow> string \<Rightarrow> jval \<Rightarrow> int \<Rightarrow> call list
     \<Rightarrow> (error + (string \<times> rat) list) \<times> call list" where
  "query_collection env collection_name query_text embedding_model n_results tr =
     (case get_collection env tr collection_name of
        Some err \<Rightarrow> (Inl err, tr @ [GetCollection collection_name])
      | None \<Rightarrow>
          (case (if embedding_model = JStr ''openai''
                 then get_openai_embeddings env [query_text] (tr @ [GetCollection collection_name])
                 else get_gemini_embeddings env [query_text] (tr @ [GetCollection collection_name])) of
             (Inl err, tr1) \<Rightarrow> (Inl err, tr1)
           | (Inr embs, tr1) \<Rightarrow>
               (case first_item embs of
                  Inl err \<Rightarrow> (Inl err, tr1)
                | Inr query_embedding \<Rightarrow>
                    (case collection_query env tr1 collection_name query_embedding n_results of
                       Inl err \<Rightarrow>
                         (Inl err, tr1 @ [CollectionQuery collection_name query_embedding n_results])
                     | Inr results \<Rightarrow>
                         (case first_item (documents results) of
                            Inl err \<Rightarrow>
                              (Inl err, tr1 @ [CollectionQuery collection_name query_embedding n_results])
                          | Inr docs \<Rightarrow>
                              (case first_item (distances results) of
                                 Inl err \<Rightarrow>
                                   (Inl err,
                                    tr1 @ [CollectionQuery collection_name query_embedding n_results])
                               | Inr dists \<Rightarrow>
                                   (Inr (zip docs dists),
                                    tr1 @ [CollectionQuery collection_name query_embedding n_results])))))))"

section \<open>The language model service: \<^verbatim>\<open>generate_response\<close>\<close>

text \<open>
  The dictionary returned by \<^verbatim>\<open>generate_response\<close>, with its keys
  \<^verbatim>\<open>"response"\<close>, \<^verbatim>\<open>"model"\<close> and \<^verbatim>\<open>"web_context"\<close>.
\<close>

record llm_response =
  llm_text :: string
  llm_model :: jval
  llm_web_context :: "string option"

text \<open>
  \<^verbatim>\<open>prompt = query\<close>, replaced under \<^verbatim>\<open>if context:\<close> by
  \<^verbatim>\<open>f"Context:\n{context}\n\nQuestion: {query}"\<close>. The test is Python's truth
  value: \<^verbatim>\<open>None\<close> and the empty string both fail it.
\<close>

definition context_prompt :: "string \<Rightarrow> string option \<Rightarrow> string" where
  "context_prompt query ctx =
     (case ctx of
        None \<Rightarrow> query
      | Some c \<Rightarrow>
          if c \<noteq> [] then ''Context:\<newline>'' @ c @ ''\<newline>\<newline>Question: '' @ query
          else query)"

text \<open>\<^verbatim>\<open>f"Web Search Results:\n{web_context}\n\n{prompt}"\<close>\<close>

definition web_prompt :: "string \<Rightarrow> string \<Rightarrow> string" where
  "web_prompt web_ctx prompt = ''Web Search Results:\<newline>'' @ web_ctx @ ''\<newline>\<newline>'' @ prompt"

text \<open>The call of the model itself, the part after \<^verbatim>\<open># Generate response\<close>.\<close>

definition call_model ::
  "capabilities \<Rightarrow> string \<Rightarrow> string option \<Rightarrow> jval \<Rightarrow> jval \<Rightarrow> jval \<Rightarrow> jval \<Rightarrow> call list
     \<Rightarrow> (error + llm_response) \<times> call list" where
  "call_model env prompt web_ctx system_prompt provider model temperature tr =
     (if provider = JStr ''openai'' then
        (let messages =
               (if truthy system_prompt then [(''system'', system_prompt)] else [])
               @ [(''user'', JStr prompt)]
         in (case openai_chat env tr model messages temperature of
               Inl err \<Rightarrow> (Inl err, tr @ [OpenAIChat model messages temperature])
             | Inr content \<Rightarrow>
                 (Inr \<lparr>llm_text = content, llm_model = model, llm_web_context = web_ctx\<rparr>,
                  tr @ [OpenAIChat model messages temperature])))
      else
        (case gemini_generate env tr model prompt of
           Inl err \<Rightarrow> (Inl err, tr @ [GeminiGenerate model prompt])
         | Inr text \<Rightarrow>
             (Inr \<lparr>llm_text = text, llm_model = model, llm_web_context = web_ctx\<rparr>,
              tr @ [GeminiGenerate model prompt])))"

definition generate_response ::
  "capabilities \<Rightarrow> string \<Rightarrow> string option \<Rightarrow> jval \<Rightarrow> jval \<Rightarrow> jval \<Rightarrow> jval \<Rightarrow> jval \<Rightarrow> jval
     \<Rightarrow> call list \<Rightarrow> (error + llm_response) \<times> call list" where
  "generate_response env query ctx system_prompt provider model temperature
       enable_web_search search_provider tr =
     (if truthy enable_web_search then
        (case web_search env tr query search_provider of
           Inl err \<Rightarrow> (Inl err, tr @ [WebSearch query search_provider])
         | Inr web_ctx \<Rightarrow>
             call_model env (web_prompt web_ctx (context_prompt query ctx)) (Some web_ctx)
               system_prompt provider model temperature (tr @ [WebSearch query search_provider]))
      else
        call_model env (context_prompt query ctx) None
          system_prompt provider model temperature tr)"

section \<open>The orchestrator: \<^verbatim>\<open>execute_workflow\<close>\<close>

text \<open>
  The dictionary \<^verbatim>\<open>state\<close>. Its key \<^verbatim>\<open>"metadata"\<close> exists only once a generation
  node has run, so that field is \<open>None\<close> until then. The field for \<^verbatim>\<open>"context"\<close> is
  primed because \<open>context\<close> is a keyword of Isabelle.
\<close>

record metadata =
  model :: jval
  web_context :: "string option"

record state =
  query :: string
  context' :: "string option"
  response :: "string option"
  metadata :: "metadata option"

type_synonym config = "string \<rightharpoonup> jval"

text \<open>\<^verbatim>\<open>config.get(key, default)\<close>\<close>

definition config_get :: "config \<Rightarrow> string \<Rightarrow> jval \<Rightarrow> jval" where
  "config_get config key dflt = (case config key of None \<Rightarrow> dflt | Some v \<Rightarrow> v)"

text \<open>\<^verbatim>\<open>node_configs.get(node_id, {})\<close>\<close>

definition node_config :: "(string \<rightharpoonup> config) \<Rightarrow> string \<Rightarrow> config" where
  "node_config node_configs nid = (case node_configs nid of None \<Rightarrow> Map.empty | Some c \<Rightarrow> c)"

text \<open>\<^verbatim>\<open>sep.join(xs)\<close>\<close>

fun join :: "string \<Rightarrow> string list \<Rightarrow> string" where
  "join sep [] = []"
| "join sep [x] = x"
| "join sep (x # y # ys) = x @ sep @ join sep (y # ys)"

text \<open>
  The body of the loop \<^verbatim>\<open>for node_id in execution_order\<close>: the node is looked up by
  id (\<^verbatim>\<open>next\<close> without a default), then the chain of \<^verbatim>\<open>if\<close>/\<^verbatim>\<open>elif\<close> on its
  component type follows; the chain has no \<^verbatim>\<open>else\<close>.
\<close>

definition execute_node ::
  "capabilities \<Rightarrow> node list \<Rightarrow> (string \<rightharpoonup> config) \<Rightarrow> string \<Rightarrow> state \<Rightarrow> call list
     \<Rightarrow> (error + state) \<times> call list" where
  "execute_node env nodes node_configs nid st tr =
     (case List.find (\<lambda>n. node_id n = nid) nodes of
        None \<Rightarrow> (Inl StopIteration, tr @ [Step nid])
      | Some nd \<Rightarrow>
          (let component_type = componentType nd;
               config = node_config node_configs nid
           in
             if component_type = ''userQuery'' then (Inr st, tr @ [Step nid])
             else if component_type = ''knowledgeBase'' then
               (case query_collection env
                       (config_get config ''collectionName'' (JStr ''default''))
                       (query st)
                       (config_get config ''embeddingModel'' (JStr ''openai''))
                       3 (tr @ [Step nid]) of
                  (Inr results, tr') \<Rightarrow>
                    (Inr (st\<lparr>context' := Some (join ''\<newline>\<newline>'' (map fst results))\<rparr>), tr')
                | (Inl err, tr') \<Rightarrow> (Inr (st\<lparr>context' := None\<rparr>), tr'))
             else if component_type = ''llmEngine'' then
               (case generate_response env (query st) (context' st)
                       (config_get config ''systemPrompt'' JNone)
                       (config_get config ''provider'' (JStr ''openai''))
                       (config_get config ''model'' (JStr ''gpt-4''))
                       (config_get config ''temperature'' (JNum (7 / 10)))
                       (config_get config ''enableWebSearch'' (JBool False))
                       (config_get config ''searchProvider'' (JStr ''serpapi''))
                       (tr @ [Step nid]) of
                  (Inl err, tr') \<Rightarrow> (Inl err, tr')
                | (Inr llm, tr') \<Rightarrow>
                    (Inr (st\<lparr>response := Some (llm_text llm),
                              metadata := Some \<lparr>model = llm_model llm,
                                                 web_context = llm_web_context llm\<rparr>\<rparr>), tr'))
             else if component_type = ''output'' then (Inr st, tr @ [Step nid])
             else (Inr st, tr @ [Step nid])))"

fun run_nodes ::
  "capabilities \<Rightarrow> node list \<Rightarrow> (string \<rightharpoonup> config) \<Rightarrow> string list \<Rightarrow> state \<Rightarrow> call list
     \<Rightarrow> (error + state) \<times> call list" where
  "run_nodes env nodes node_configs [] st tr = (Inr st, tr)"
| "run_nodes env nodes node_configs (nid # rest) st tr =
     (case execute_node env nodes node_configs nid st tr of
        (Inl err, tr') \<Rightarrow> (Inl err, tr')
      | (Inr st', tr') \<Rightarrow> run_nodes env nodes node_configs rest st' tr')"

text \<open>
  A run yields \<open>None\<close> if the resolver does not return, and otherwise the exception
  raised or the dictionary \<^verbatim>\<open>state\<close> returned, together with the trace.
\<close>

definition initial_state :: "string \<Rightarrow> state" where
  "initial_state q = \<lparr>query = q, context' = None, response = None, metadata = None\<rparr>"

definition execute_workflow ::
  "capabilities \<Rightarrow> string \<Rightarrow> node list \<Rightarrow> edge list \<Rightarrow> (string \<rightharpoonup> config)
     \<Rightarrow> ((error + state) \<times> call list) option" where
  "execute_workflow env q nodes edges node_configs =
     (case build_execution_order nodes edges of
        None \<Rightarrow> None
      | Some (Inl err) \<Rightarrow> Some (Inl err, [])
      | Some (Inr execution_order) \<Rightarrow>
          Some (run_nodes env nodes node_configs execution_order (initial_state q) []))"

section \<open>Notions used in the statements\<close>

text \<open>
  The edges as a relation, the targets of the edges that leave a node in the order of
  the edge list, and the absence of a cycle among the nodes reachable from a node.
\<close>

definition edge_rel :: "edge list \<Rightarrow> (string \<times> string) set" where
  "edge_rel edges = (\<lambda>e. (source e, target e)) ` set edges"

definition targets_of :: "edge list \<Rightarrow> string \<Rightarrow> string list" where
  "targets_of edges n = map target (filter (\<lambda>e. source e = n) edges)"

definition reachable_acyclic :: "edge list \<Rightarrow> string \<Rightarrow> bool" where
  "reachable_acyclic edges s =
     (\<forall>v. (s, v) \<in> (edge_rel edges)\<^sup>* \<longrightarrow> (v, v) \<notin> (edge_rel edges)\<^sup>+)"

text \<open>The same relation read off the adjacency dictionary.\<close>

definition nbr_rel :: "graph \<Rightarrow> (string \<times> string) set" where
  "nbr_rel graph = {(u, v). v \<in> set (graph_get graph u)}"

text \<open>
  The calls of \<^verbatim>\<open>dfs\<close> that return, as a relation: \<open>visits graph ns order res\<close> says
  that running \<^verbatim>\<open>dfs\<close> on the nodes \<open>ns\<close> one after the other, started with
  \<^verbatim>\<open>order\<close> and \<^verbatim>\<open>visited\<close> holding \<open>order\<close>, returns with \<^verbatim>\<open>order\<close> holding
  \<open>res\<close>. It serves as the induction principle of the traversal.
\<close>

inductive visits :: "graph \<Rightarrow> string list \<Rightarrow> string list \<Rightarrow> string list \<Rightarrow> bool"
  for graph :: graph
where
  visits_Nil: "visits graph [] order order"
| visits_seen: "n \<in> set order \<Longrightarrow> visits graph rest order res \<Longrightarrow> visits graph (n # rest) order res"
| visits_new: "n \<notin> set order \<Longrightarrow> visits graph (graph_get graph n) (order @ [n]) mid
      \<Longrightarrow> visits graph rest mid res \<Longrightarrow> visits graph (n # rest) order res"

text \<open>
  Depth-first order with ties broken by the edge list, said without the traversal. After
  the nodes \<open>pre\<close> have been visited, the node to continue from is the node visited
  last among those that still have an edge to a node outside \<open>pre\<close>, and the node
  visited next is the target of the first such edge of the edge list. \<open>edge_order_dfs\<close>
  holds of a list that starts with \<open>s\<close>, goes on in this way at every position, and
  stops only when no visited node has an edge to an unvisited one.
\<close>

definition unvisited_targets :: "edge list \<Rightarrow> string list \<Rightarrow> string \<Rightarrow> string list" where
  "unvisited_targets edges pre u = filter (\<lambda>t. t \<notin> set pre) (targets_of edges u)"

definition next_visit :: "edge list \<Rightarrow> string list \<Rightarrow> string option" where
  "next_visit edges pre =
     (case filter (\<lambda>u. unvisited_targets edges pre u \<noteq> []) (rev pre) of
        [] \<Rightarrow> None
      | u # us \<Rightarrow> Some (hd (unvisited_targets edges pre u)))"

definition edge_order_dfs :: "edge list \<Rightarrow> string \<Rightarrow> string list \<Rightarrow> bool" where
  "edge_order_dfs edges s order =
     (order \<noteq> [] \<and> hd order = s \<and>
      (\<forall>pre v rest. order = pre @ v # rest \<and> pre \<noteq> [] \<longrightarrow> next_visit edges pre = Some v) \<and>
      next_visit edges order = None)"

text \<open>
  The same step inside one call of the loop over \<open>ns\<close>: \<open>new\<close> are the nodes this call
  has added so far and \<open>pre\<close> all nodes visited so far. When none of \<open>new\<close> has an
  unvisited neighbour, the loop goes on with the first unvisited node of \<open>ns\<close>.
\<close>

definition fresh :: "graph \<Rightarrow> string list \<Rightarrow> string \<Rightarrow> string list" where
  "fresh graph pre u = filter (\<lambda>t. t \<notin> set pre) (graph_get graph u)"

definition local_next :: "graph \<Rightarrow> string list \<Rightarrow> string list \<Rightarrow> string list \<Rightarrow> string option" where
  "local_next graph ns new pre =
     (case filter (\<lambda>u. fresh graph pre u \<noteq> []) (rev new) of
        u # us \<Rightarrow> Some (hd (fresh graph pre u))
      | [] \<Rightarrow> (case filter (\<lambda>t. t \<notin> set pre) ns of [] \<Rightarrow> None | c # cs \<Rightarrow> Some c))"

text \<open>
  Entries of the trace that are calls of an external capability, and the prompt that a
  call of a language model carries: the content of the last message of a chat request,
  the text handed to Gemini.
\<close>

fun external :: "call \<Rightarrow> bool" where
  "external (Step nid) = False"
| "external c = True"

fun sent_prompt :: "call \<Rightarrow> string option" where
  "sent_prompt (OpenAIChat m messages t) =
     (case rev messages of
        (role, JStr p) # earlier \<Rightarrow> Some p
      | other \<Rightarrow> None)"
| "sent_prompt (GeminiGenerate m p) = Some p"
| "sent_prompt c = None"

text \<open>
  \<open>appends P tr tr'\<close>: the trace \<open>tr'\<close> is \<open>tr\<close> followed by entries that all satisfy
  \<open>P\<close>. \<open>asks n\<close> holds of the calls of external capabilities, except for a query of
  the vector store that asks for a number of results other than \<open>n\<close>.
\<close>

definition appends :: "(call \<Rightarrow> bool) \<Rightarrow> call list \<Rightarrow> call list \<Rightarrow> bool" where
  "appends P tr tr' = (\<exists>new. tr' = tr @ new \<and> list_all P new)"

definition asks :: "int \<Rightarrow> call \<Rightarrow> bool" where
  "asks n c = (external c \<and> (\<forall>name emb k. c = CollectionQuery name emb k \<longrightarrow> k = n))"

text \<open>
  The two calls of a step as the loop body writes them: the retrieval and the generation
  for the node \<open>nid\<close>, with the defaults of \<^verbatim>\<open>config.get\<close>.
\<close>

abbreviation retrieve_at ::
  "capabilities \<Rightarrow> (string \<rightharpoonup> config) \<Rightarrow> string \<Rightarrow> state \<Rightarrow> call list
     \<Rightarrow> (error + (string \<times> rat) list) \<times> call list" where
  "retrieve_at env cfgs nid st tr \<equiv>
     query_collection env
       (config_get (node_config cfgs nid) ''collectionName'' (JStr ''default''))
       (query st)
       (config_get (node_config cfgs nid) ''embeddingModel'' (JStr ''openai''))
       3 (tr @ [Step nid])"

abbreviation generate_at ::
  "capabilities \<Rightarrow> (string \<rightharpoonup> config) \<Rightarrow> string \<Rightarrow> state \<Rightarrow> call list
     \<Rightarrow> (error + llm_response) \<times> call list" where
  "generate_at env cfgs nid st tr \<equiv>
     generate_response env (query st) (context' st)
       (config_get (node_config cfgs nid) ''systemPrompt'' JNone)
       (config_get (node_config cfgs nid) ''provider'' (JStr ''openai''))
       (config_get (node_config cfgs nid) ''model'' (JStr ''gpt-4''))
       (config_get (node_config cfgs nid) ''temperature'' (JNum (7 / 10)))
       (config_get (node_config cfgs nid) ''enableWebSearch'' (JBool False))
       (config_get (node_config cfgs nid) ''searchProvider'' (JStr ''serpapi''))
       (tr @ [Step nid])"

section \<open>Example graphs\<close>

text \<open>
  A diamond: the query node leads to a retrieval node and to a generation node, and
  both lead to the output node. A fifth node is not connected.
\<close>

definition diamond_nodes :: "node list" where
  "diamond_nodes =
     [\<lparr>node_id = ''q'', componentType = ''userQuery''\<rparr>,
      \<lparr>node_id = ''kb'', componentType = ''knowledgeBase''\<rparr>,
      \<lparr>node_id = ''llm'', componentType = ''llmEngine''\<rparr>,
      \<lparr>node_id = ''outp'', componentType = ''output''\<rparr>,
      \<lparr>node_id = ''spare'', componentType = ''output''\<rparr>]"

definition diamond_edges :: "edge list" where
  "diamond_edges =
     [\<lparr>source = ''q'', target = ''kb''\<rparr>,
      \<lparr>source = ''q'', target = ''llm''\<rparr>,
      \<lparr>source = ''kb'', target = ''outp''\<rparr>,
      \<lparr>source = ''llm'', target = ''outp''\<rparr>]"

text \<open>A cycle through the entry node.\<close>

definition loop_nodes :: "node list" where
  "loop_nodes =
     [\<lparr>node_id = ''q'', componentType = ''userQuery''\<rparr>,
      \<lparr>node_id = ''llm'', componentType = ''llmEngine''\<rparr>]"

definition loop_edges :: "edge list" where
  "loop_edges =
     [\<lparr>source = ''q'', target = ''llm''\<rparr>,
      \<lparr>source = ''llm'', target = ''q''\<rparr>]"

text \<open>The chain of the four component types, and a chain without a generation node.\<close>

definition chain_nodes :: "node list" where
  "chain_nodes =
     [\<lparr>node_id = ''q'', componentType = ''userQuery''\<rparr>,
      \<lparr>node_id = ''kb'', componentType = ''knowledgeBase''\<rparr>,
      \<lparr>node_id = ''llm'', componentType = ''llmEngine''\<rparr>,
      \<lparr>node_id = ''outp'', componentType = ''output''\<rparr>]"

definition chain_edges :: "edge list" where
  "chain_edges =
     [\<lparr>source = ''q'', target = ''kb''\<rparr>,
      \<lparr>source = ''kb'', target = ''llm''\<rparr>,
      \<lparr>source = ''llm'', target = ''outp''\<rparr>]"

definition lookup_nodes :: "node list" where
  "lookup_nodes =
     [\<lparr>node_id = ''q'', componentType = ''userQuery''\<rparr>,
      \<lparr>node_id = ''kb'', componentType = ''knowledgeBase''\<rparr>,
      \<lparr>node_id = ''outp'', componentType = ''output''\<rparr>]"

definition lookup_edges :: "edge list" where
  "lookup_edges =
     [\<lparr>source = ''q'', target = ''kb''\<rparr>,
      \<lparr>source = ''kb'', target = ''outp''\<rparr>]"

text \<open>A query node followed by an output node, and nothing else.\<close>

definition bare_nodes :: "node list" where
  "bare_nodes =
     [\<lparr>node_id = ''q'', componentType = ''userQuery''\<rparr>,
      \<lparr>node_id = ''outp'', componentType = ''output''\<rparr>]"

definition bare_edges :: "edge list" where
  "bare_edges = [\<lparr>source = ''q'', target = ''outp''\<rparr>]"

text \<open>
  A fan: three edges leave the query node. And a graph without a query node whose only
  edge starts at a node that is not declared.
\<close>

definition fan_nodes :: "node list" where
  "fan_nodes =
     [\<lparr>node_id = ''q'', componentType = ''userQuery''\<rparr>,
      \<lparr>node_id = ''a'', componentType = ''output''\<rparr>,
      \<lparr>node_id = ''b'', componentType = ''output''\<rparr>,
      \<lparr>node_id = ''c'', componentType = ''output''\<rparr>]"

definition fan_edges :: "edge list" where
  "fan_edges =
     [\<lparr>source = ''q'', target = ''a''\<rparr>,
      \<lparr>source = ''q'', target = ''b''\<rparr>,
      \<lparr>source = ''q'', target = ''c''\<rparr>]"

definition ghost_nodes :: "node list" where
  "ghost_nodes = [\<lparr>node_id = ''a'', componentType = ''output''\<rparr>]"

definition ghost_edges :: "edge list" where
  "ghost_edges = [\<lparr>source = ''ghost'', target = ''a''\<rparr>]"

text \<open>A graph without a query node, and one with a node of an unknown type.\<close>

definition headless_nodes :: "node list" where
  "headless_nodes =
     [\<lparr>node_id = ''llm'', componentType = ''llmEngine''\<rparr>,
      \<lparr>node_id = ''outp'', componentType = ''output''\<rparr>]"

definition headless_edges :: "edge list" where
  "headless_edges = [\<lparr>source = ''llm'', target = ''outp''\<rparr>]"

definition plain_nodes :: "node list" where
  "plain_nodes =
     [\<lparr>node_id = ''q'', componentType = ''userQuery''\<rparr>,
      \<lparr>node_id = ''note'', componentType = ''comment''\<rparr>,
      \<lparr>node_id = ''outp'', componentType = ''output''\<rparr>]"

definition plain_edges :: "edge list" where
  "plain_edges =
     [\<lparr>source = ''q'', target = ''note''\<rparr>,
      \<lparr>source = ''note'', target = ''outp''\<rparr>]"

text \<open>
  Capabilities for the examples: the vector store returns two chunks, the search a
  fixed text, and the language models echo their prompt. Variants of it fail in the
  language model or in the vector store, or find no chunk at all.
\<close>

definition mock_env :: capabilities where
  "mock_env =
     \<lparr>get_collection = (\<lambda>tr name. None),
      openai_embeddings = (\<lambda>tr texts. Inr (map (\<lambda>t. [1 / 2]) texts)),
      gemini_embed_content = (\<lambda>tr text. Inr [1 / 4]),
      collection_query = (\<lambda>tr name emb k.
         Inr \<lparr>documents = [[''X is a thing.'', ''X was invented in 1990.'']],
              distances = [[1 / 10, 1 / 5]]\<rparr>),
      web_search = (\<lambda>tr q provider. Inr ''X: a thing''),
      openai_chat = (\<lambda>tr m messages t.
         (case sent_prompt (OpenAIChat m messages t) of
            Some p \<Rightarrow> Inr p
          | None \<Rightarrow> Inl (ExternalError ''no prompt''))),
      gemini_generate = (\<lambda>tr m p. Inr p)\<rparr>"

definition web_configs :: "string \<rightharpoonup> config" where
  "web_configs =
     [''llm'' \<mapsto> [''enableWebSearch'' \<mapsto> JBool True,
                 ''provider'' \<mapsto> JStr ''gemini'',
                 ''model'' \<mapsto> JStr ''gemini-pro'']]"

definition failing_llm_env :: capabilities where
  "failing_llm_env =
     mock_env\<lparr>openai_chat := (\<lambda>tr m messages t. Inl (ExternalError ''rate limit''))\<rparr>"

definition failing_store_env :: capabilities where
  "failing_store_env =
     mock_env\<lparr>get_collection := (\<lambda>tr name. Some (ExternalError ''no such collection''))\<rparr>"

definition empty_store_env :: capabilities where
  "empty_store_env =
     mock_env\<lparr>collection_query := (\<lambda>tr name emb k. Inr \<lparr>documents = [[]], distances = [[]]\<rparr>)\<rparr>"

section \<open>Properties of the traversal\<close>

lemma dfs_for_Nil: "dfs_for graph [] st = Some st"
  by (subst dfs_for.simps) simp

lemma dfs_for_Cons:
  "dfs_for graph (n # rest) st = Option.bind (dfs graph n st) (dfs_for graph rest)"
  by (subst dfs_for.simps) (simp add: dfs_def)

lemma visits_dfs_for:
  "visits graph ns order res \<Longrightarrow> dfs_for graph ns (order, set order) = Some (res, set res)"
proof (induction rule: visits.induct)
  case (visits_Nil order)
  show ?case by (simp add: dfs_for_Nil)
next
  case (visits_seen n order rest res)
  then show ?case by (simp add: dfs_for_Cons dfs_def)
next
  case (visits_new n order mid rest res)
  then show ?case by (simp add: dfs_for_Cons dfs_def)
qed

lemma visits_extends: "visits graph ns order res \<Longrightarrow> \<exists>new. res = order @ new"
  by (induction rule: visits.induct) auto

lemma visits_distinct: "visits graph ns order res \<Longrightarrow> distinct order \<Longrightarrow> distinct res"
  by (induction rule: visits.induct) auto

lemma visits_covers: "visits graph ns order res \<Longrightarrow> set ns \<subseteq> set res"
proof (induction rule: visits.induct)
  case (visits_new n order mid rest res)
  from visits_extends[OF visits_new.hyps(2)] visits_extends[OF visits_new.hyps(3)]
  have "n \<in> set res" by auto
  with visits_new.IH show ?case by simp
next
  case (visits_seen n order rest res)
  from visits_extends[OF visits_seen.hyps(2)] visits_seen.hyps(1)
  have "n \<in> set res" by auto
  with visits_seen.IH show ?case by simp
qed simp

lemma visits_closed:
  "visits graph ns order res \<Longrightarrow> u \<in> set res \<Longrightarrow> u \<notin> set order \<Longrightarrow> set (graph_get graph u) \<subseteq> set res"
proof (induction rule: visits.induct)
  case (visits_new n order mid rest res)
  from visits_extends[OF visits_new.hyps(3)] have sub: "set mid \<subseteq> set res" by auto
  show ?case
  proof (cases "u \<in> set mid")
    case False
    with visits_new show ?thesis by blast
  next
    case True
    show ?thesis
    proof (cases "u = n")
      case True
      with visits_covers[OF visits_new.hyps(2)] sub show ?thesis by blast
    next
      case False
      with True visits_new sub show ?thesis by auto
    qed
  qed
qed auto

lemma visits_reach:
  "visits graph ns order res \<Longrightarrow> set res \<subseteq> set order \<union> (nbr_rel graph)\<^sup>* `` set ns"
proof (induction rule: visits.induct)
  case (visits_new n order mid rest res)
  have "(nbr_rel graph)\<^sup>* `` set (graph_get graph n) \<subseteq> (nbr_rel graph)\<^sup>* `` {n}"
    by (auto simp: nbr_rel_def intro: converse_rtrancl_into_rtrancl)
  with visits_new.IH show ?case by (simp add: Image_def) blast
qed auto

lemma visits_total:
  assumes fin: "finite U" and nbrs: "\<And>n. set (graph_get graph n) \<subseteq> U"
  shows "set ns \<subseteq> U \<Longrightarrow> \<exists>res. visits graph ns order res"
proof (induction "card (U - set order)" arbitrary: order ns rule: less_induct)
  case less
  from less.prems show ?case
  proof (induction ns)
    case Nil
    show ?case by (blast intro: visits_Nil)
  next
    case (Cons n rest)
    then have n: "n \<in> U" and rest: "set rest \<subseteq> U" by auto
    show ?case
    proof (cases "n \<in> set order")
      case True
      from Cons.IH[OF rest] obtain res where "visits graph rest order res" ..
      with True show ?thesis by (blast intro: visits_seen)
    next
      case False
      with n fin have "card (U - set (order @ [n])) < card (U - set order)"
        by (intro psubset_card_mono) auto
      from less.hyps[OF this nbrs] obtain mid
        where mid: "visits graph (graph_get graph n) (order @ [n]) mid" ..
      from visits_extends[OF mid] have "insert n (set order) \<subseteq> set mid" by auto
      with False n fin have "card (U - set mid) < card (U - set order)"
        by (intro psubset_card_mono) auto
      from less.hyps[OF this rest] obtain res where "visits graph rest mid res" ..
      with False mid show ?thesis by (blast intro: visits_new)
    qed
  qed
qed


subsection \<open>The adjacency dictionary\<close>

lemma init_graph_fold:
  "fold (\<lambda>n g. g(node_id n \<mapsto> [])) nodes g0 k =
     (if k \<in> node_id ` set nodes then Some [] else g0 k)"
  by (induction nodes arbitrary: g0) auto

lemma init_graph_apply:
  "init_graph nodes k = (if k \<in> node_id ` set nodes then Some [] else None)"
  by (simp add: init_graph_def init_graph_fold)

lemma dom_init_graph: "dom (init_graph nodes) = node_id ` set nodes"
  by (auto simp: init_graph_apply dom_def)

lemma add_edges_Inr_dom:
  "add_edges es g0 = Inr g \<Longrightarrow> source ` set es \<subseteq> dom g0"
proof (induction es arbitrary: g0)
  case Nil
  show ?case by simp
next
  case (Cons e es)
  from Cons.prems obtain ts where ts: "g0 (source e) = Some ts"
    and rec: "add_edges es (g0(source e \<mapsto> ts @ [target e])) = Inr g"
    by (auto split: option.splits)
  have "source ` set es \<subseteq> dom (g0(source e \<mapsto> ts @ [target e]))"
    by (rule Cons.IH[OF rec])
  also have "\<dots> = insert (source e) (dom g0)" by simp
  finally have "source ` set es \<subseteq> insert (source e) (dom g0)" .
  moreover from ts have "source e \<in> dom g0" by blast
  ultimately show ?case by auto
qed

lemma add_edges_Inr_apply:
  "add_edges es g0 = Inr g \<Longrightarrow> g n = map_option (\<lambda>ts. ts @ targets_of es n) (g0 n)"
proof (induction es arbitrary: g0)
  case Nil
  then show ?case by (simp add: targets_of_def option.map_ident)
next
  case (Cons e es)
  from Cons.prems obtain ts where ts: "g0 (source e) = Some ts"
    and rec: "add_edges es (g0(source e \<mapsto> ts @ [target e])) = Inr g"
    by (auto split: option.splits)
  from Cons.IH[OF rec] ts show ?case
    by (cases "source e = n") (simp_all add: targets_of_def)
qed

lemma add_edges_Inl:
  "add_edges es g0 = Inl err \<Longrightarrow> \<exists>s \<in> source ` set es. s \<notin> dom g0 \<and> err = KeyError s"
proof (induction es arbitrary: g0)
  case Nil
  then show ?case by simp
next
  case (Cons e es)
  show ?case
  proof (cases "g0 (source e)")
    case None
    with Cons.prems show ?thesis by auto
  next
    case (Some ts)
    with Cons.prems have "add_edges es (g0(source e \<mapsto> ts @ [target e])) = Inl err" by simp
    from Cons.IH[OF this] obtain s where "s \<in> source ` set es"
      and "s \<notin> dom (g0(source e \<mapsto> ts @ [target e]))" and "err = KeyError s" by blast
    then show ?thesis by auto
  qed
qed

lemma add_edges_defined:
  "source ` set es \<subseteq> dom g0 \<Longrightarrow> \<exists>g. add_edges es g0 = Inr g"
proof (induction es arbitrary: g0)
  case Nil
  show ?case by simp
next
  case (Cons e es)
  then obtain ts where ts: "g0 (source e) = Some ts" by auto
  from Cons.prems have "source ` set es \<subseteq> dom (g0(source e \<mapsto> ts @ [target e]))" by auto
  from Cons.IH[OF this] obtain g where "add_edges es (g0(source e \<mapsto> ts @ [target e])) = Inr g" ..
  with ts have "add_edges (e # es) g0 = Inr g" by (simp del: fun_upd_apply)
  then show ?case by blast
qed

subsection \<open>The order of the visits\<close>

lemma visits_all_seen: "visits graph ns order res \<Longrightarrow> set ns \<subseteq> set order \<Longrightarrow> res = order"
  by (induction rule: visits.induct) auto

lemma visits_first_unseen:
  "visits graph ns order res \<Longrightarrow> filter (\<lambda>t. t \<notin> set order) ns = c # cs
     \<Longrightarrow> \<exists>new. res = order @ c # new"
proof (induction rule: visits.induct)
  case (visits_new n order mid rest res)
  from visits_new.prems visits_new.hyps(1) have "c = n" by simp
  moreover from visits_extends[OF visits_new.hyps(2)] visits_extends[OF visits_new.hyps(3)]
  obtain new1 new2 where "res = ((order @ [n]) @ new1) @ new2" by blast
  ultimately show ?case by simp
qed auto

lemma visits_next:
  "visits graph ns order res \<Longrightarrow> res = pre @ x # rest \<Longrightarrow> length order \<le> length pre
     \<Longrightarrow> filter (\<lambda>t. t \<notin> set pre \<and> t \<noteq> x) (graph_get graph x) = c # cs
     \<Longrightarrow> \<exists>rest'. rest = c # rest'"
proof (induction arbitrary: rest rule: visits.induct)
  case (visits_Nil order)
  then show ?case by auto
next
  case (visits_seen n order rs res)
  then show ?case by blast
next
  case (visits_new n order mid rs res)
  from visits_extends[OF visits_new.hyps(3)] obtain new2 where res: "res = mid @ new2" ..
  show ?case
  proof (cases "length mid \<le> length pre")
    case True
    from visits_new.IH(2)[OF visits_new.prems(1) True visits_new.prems(3)] show ?thesis .
  next
    case False
    with res visits_new.prems(1) obtain rest1 where mid: "mid = pre @ x # rest1" and rest: "rest = rest1 @ new2"
      by (auto simp: append_eq_append_conv2 Cons_eq_append_conv)
    show ?thesis
    proof (cases "length (order @ [n]) \<le> length pre")
      case True
      from visits_new.IH(1)[OF mid True visits_new.prems(3)] rest show ?thesis by auto
    next
      case False
      with visits_new.prems(2) have len: "length pre = length order" by simp
      from visits_extends[OF visits_new.hyps(2)] obtain new1 where "mid = (order @ [n]) @ new1" ..
      with mid len have pre: "pre = order" and x: "x = n" by auto
      from visits_new.prems(3) have "filter (\<lambda>t. t \<notin> set (order @ [n])) (graph_get graph n) = c # cs"
        by (simp add: pre x conj_commute)
      from visits_first_unseen[OF visits_new.hyps(2) this] mid rest pre x show ?thesis by auto
    qed
  qed
qed

lemma built_graph_get:
  assumes "add_edges edges (init_graph nodes) = Inr g"
  shows "graph_get g n = targets_of edges n"
proof (cases "n \<in> node_id ` set nodes")
  case True
  with add_edges_Inr_apply[OF assms, of n] show ?thesis
    by (simp add: graph_get_def init_graph_apply)
next
  case False
  from add_edges_Inr_dom[OF assms] have "source ` set edges \<subseteq> node_id ` set nodes"
    by (simp add: dom_init_graph)
  with False have "targets_of edges n = []"
    by (auto simp: targets_of_def filter_empty_conv)
  with False add_edges_Inr_apply[OF assms, of n] show ?thesis
    by (simp add: graph_get_def init_graph_apply)
qed

lemma built_nbr_rel:
  assumes "add_edges edges (init_graph nodes) = Inr g"
  shows "nbr_rel g = edge_rel edges"
  by (auto simp: nbr_rel_def built_graph_get[OF assms] targets_of_def edge_rel_def)

lemma dfs_start:
  "dfs graph s ([], {}) = dfs_for graph [s] ([], {})"
  by (cases "dfs graph s ([], {})") (simp_all add: dfs_for_Cons dfs_for_Nil)

lemma built_visits:
  assumes "add_edges edges (init_graph nodes) = Inr g"
  shows "\<exists>res. visits g [s] [] res"
proof (rule visits_total)
  show "finite (insert s (target ` set edges))" by simp
  show "set (graph_get g n) \<subseteq> insert s (target ` set edges)" for n
    by (auto simp: built_graph_get[OF assms] targets_of_def)
  show "set [s] \<subseteq> insert s (target ` set edges)" by simp
qed

lemma visits_from_start:
  assumes "visits g [s] [] res"
  shows "res \<noteq> [] \<and> hd res = s \<and> distinct res \<and> set res = (nbr_rel g)\<^sup>* `` {s}"
proof -
  from visits_first_unseen[OF assms, of s "[]"] obtain new where res: "res = s # new" by auto
  have "distinct res" using visits_distinct[OF assms] by simp
  moreover have "set res \<subseteq> (nbr_rel g)\<^sup>* `` {s}" using visits_reach[OF assms] by simp
  moreover have "(nbr_rel g)\<^sup>* `` {s} \<subseteq> set res"
  proof
    fix v assume "v \<in> (nbr_rel g)\<^sup>* `` {s}"
    then have "(s, v) \<in> (nbr_rel g)\<^sup>*" by simp
    then show "v \<in> set res"
    proof (induction rule: rtrancl_induct)
      case base
      show ?case by (simp add: res)
    next
      case (step y z)
      from visits_closed[OF assms step.IH] step.hyps(2) show ?case
        by (auto simp: nbr_rel_def)
    qed
  qed
  ultimately show ?thesis using res by auto
qed

lemma build_execution_order_cases:
  "(\<exists>s \<in> source ` set edges. s \<notin> node_id ` set nodes \<and>
        build_execution_order nodes edges = Some (Inl (KeyError s))) \<or>
   (source ` set edges \<subseteq> node_id ` set nodes \<and>
      (find_start nodes = None \<or> find_start nodes = Some []) \<and>
      build_execution_order nodes edges = Some (Inl (ValueError ''No User Query component found''))) \<or>
   (source ` set edges \<subseteq> node_id ` set nodes \<and>
      (\<exists>s g res. find_start nodes = Some s \<and> s \<noteq> [] \<and>
         add_edges edges (init_graph nodes) = Inr g \<and> visits g [s] [] res \<and>
         build_execution_order nodes edges = Some (Inr res)))"
proof (cases "add_edges edges (init_graph nodes)")
  case (Inl err)
  from add_edges_Inl[OF Inl] obtain s where "s \<in> source ` set edges"
    and "s \<notin> node_id ` set nodes" and "err = KeyError s"
    by (auto simp: dom_init_graph)
  moreover from Inl have "build_execution_order nodes edges = Some (Inl err)"
    by (simp add: build_execution_order_def)
  ultimately show ?thesis by blast
next
  case (Inr g)
  from add_edges_Inr_dom[OF Inr] have src: "source ` set edges \<subseteq> node_id ` set nodes"
    by (simp add: dom_init_graph)
  show ?thesis
  proof (cases "find_start nodes")
    case None
    with src Inr show ?thesis by (simp add: build_execution_order_def)
  next
    case (Some s)
    show ?thesis
    proof (cases "s = []")
      case True
      with src Inr Some show ?thesis by (simp add: build_execution_order_def)
    next
      case False
      from built_visits[OF Inr] obtain res where v: "visits g [s] [] res" ..
      from visits_dfs_for[OF v] have "dfs g s ([], {}) = Some (res, set res)"
        by (simp add: dfs_start)
      with Inr Some False have "build_execution_order nodes edges = Some (Inr res)"
        by (simp add: build_execution_order_def)
      with src Inr Some False v show ?thesis by blast
    qed
  qed
qed

subsection \<open>Depth first, ties by the edge list\<close>

lemma visits_new_disjoint:
  "visits graph ns order res \<Longrightarrow> res = order @ new \<Longrightarrow> set new \<inter> set order = {}"
proof (induction arbitrary: new rule: visits.induct)
  case (visits_Nil order)
  then show ?case by simp
next
  case (visits_seen n order rs res)
  then show ?case by blast
next
  case (visits_new n order mid rs res)
  from visits_extends[OF visits_new.hyps(2)] obtain new1 where mid: "mid = (order @ [n]) @ new1" ..
  from visits_extends[OF visits_new.hyps(3)] obtain new2 where res: "res = mid @ new2" ..
  from visits_new.IH(1)[OF mid] have d1: "set new1 \<inter> set (order @ [n]) = {}" .
  from visits_new.IH(2)[OF res] have d2: "set new2 \<inter> set mid = {}" .
  from mid res visits_new.prems have "new = n # new1 @ new2" by simp
  with d1 d2 mid visits_new.hyps(1) show ?case by auto
qed

lemma visits_fresh_closed:
  assumes v: "visits graph ns order res" and res: "res = order @ new" and u: "u \<in> set new"
    and sub: "set res \<subseteq> set pre"
  shows "fresh graph pre u = []"
proof -
  from visits_new_disjoint[OF v res] u have "u \<notin> set order" by blast
  moreover from res u have "u \<in> set res" by simp
  ultimately have "set (graph_get graph u) \<subseteq> set res" by (rule visits_closed[OF v, rotated])
  with sub show ?thesis by (auto simp: fresh_def filter_empty_conv)
qed

lemma local_next_found:
  "filter (\<lambda>u. fresh graph pre u \<noteq> []) (rev new) = u # us \<Longrightarrow>
     local_next graph ns new pre = Some (hd (fresh graph pre u))"
  by (simp add: local_next_def)

lemma local_next_fallback:
  "filter (\<lambda>u. fresh graph pre u \<noteq> []) (rev new) = [] \<Longrightarrow>
     local_next graph ns new pre =
       (case filter (\<lambda>t. t \<notin> set pre) ns of [] \<Rightarrow> None | c # cs \<Rightarrow> Some c)"
  by (simp add: local_next_def)

lemma visits_local_next:
  "visits graph ns order res \<Longrightarrow> res = order @ new @ v # rest \<Longrightarrow>
     local_next graph ns new (order @ new) = Some v"
proof (induction arbitrary: new v rest rule: visits.induct)
  case (visits_Nil order)
  then show ?case by simp
next
  case (visits_seen n order rs res)
  from visits_seen.IH[OF visits_seen.prems]
  have "local_next graph rs new (order @ new) = Some v" .
  moreover from visits_seen.hyps(1)
  have "filter (\<lambda>t. t \<notin> set (order @ new)) (n # rs) = filter (\<lambda>t. t \<notin> set (order @ new)) rs"
    by simp
  ultimately show ?case unfolding local_next_def by (simp only:)
next
  case (visits_new n order mid rs res)
  from visits_extends[OF visits_new.hyps(2)] obtain new1 where mid: "mid = (order @ [n]) @ new1" ..
  from visits_extends[OF visits_new.hyps(3)] obtain new2 where res: "res = mid @ new2" ..
  from mid res visits_new.prems have eq: "n # new1 @ new2 = new @ v # rest" by simp
  show ?case
  proof (cases new)
    case Nil
    with eq have "v = n" by simp
    with Nil visits_new.hyps(1) show ?thesis by (simp add: local_next_def)
  next
    case (Cons x new')
    with eq have x: "x = n" and eq': "new1 @ new2 = new' @ v # rest" by simp_all
    let ?pre = "order @ new"
    let ?P = "\<lambda>u. fresh graph ?pre u \<noteq> []"
    have pre: "?pre = (order @ [n]) @ new'" by (simp add: Cons x)
    show ?thesis
    proof (cases "length new' < length new1")
      case True
      with eq' obtain us where "new1 = new' @ us" and "us @ new2 = v # rest" and "us \<noteq> []"
        by (auto simp: append_eq_append_conv2)
      then obtain r1 where new1: "new1 = new' @ v # r1" by (cases us) auto
      with mid have "mid = (order @ [n]) @ new' @ v # r1" by simp
      from visits_new.IH(1)[OF this]
      have ih: "local_next graph (graph_get graph n) new' ?pre = Some v" by (simp add: pre)
      show ?thesis
      proof (cases "filter ?P (rev new')")
        case (Cons u us)
        then have "filter ?P (rev new) = u # (us @ filter ?P [n])"
          by (simp add: \<open>new = x # new'\<close> x)
        from local_next_found[OF this] local_next_found[OF Cons] ih show ?thesis by simp
      next
        case Nil
        from ih local_next_fallback[OF Nil, of "graph_get graph n"]
        obtain cs where fr: "fresh graph ?pre n = v # cs"
          by (auto simp: fresh_def split: list.splits)
        with Nil have "filter ?P (rev new) = [n]" by (simp add: \<open>new = x # new'\<close> x)
        from local_next_found[OF this] fr show ?thesis by simp
      qed
    next
      case False
      with eq' obtain new'' where new': "new' = new1 @ new''" and new2: "new2 = new'' @ v # rest"
        by (auto simp: append_eq_append_conv2 Cons_eq_append_conv append_eq_Cons_conv)
      have pre2: "?pre = mid @ new''" by (simp add: Cons x new' mid)
      from res new2 have "res = mid @ new'' @ v # rest" by simp
      from visits_new.IH(2)[OF this]
      have ih: "local_next graph rs new'' ?pre = Some v" by (simp add: pre2)
      have sub: "set mid \<subseteq> set ?pre" by (simp add: pre2)
      have closed1: "fresh graph ?pre u = []" if "u \<in> set new1" for u
        by (rule visits_fresh_closed[OF visits_new.hyps(2) mid that sub])
      have "set (graph_get graph n) \<subseteq> set mid" by (rule visits_covers[OF visits_new.hyps(2)])
      with sub have closedn: "fresh graph ?pre n = []"
        by (auto simp: fresh_def filter_empty_conv)
      from closed1 have "filter ?P (rev new1) = []" by (simp add: filter_empty_conv)
      with closedn have f: "filter ?P (rev new) = filter ?P (rev new'')"
        by (simp add: Cons x new')
      have nin: "n \<in> set ?pre" by (simp add: Cons x)
      show ?thesis
      proof (cases "filter ?P (rev new'')")
        case (Cons u us)
        from local_next_found[OF Cons] local_next_found[OF Cons[folded f]] ih
        show ?thesis by simp
      next
        case Nil
        from nin have fl: "filter (\<lambda>t. t \<notin> set ?pre) (n # rs) = filter (\<lambda>t. t \<notin> set ?pre) rs"
          by simp
        have "local_next graph (n # rs) new ?pre = local_next graph rs new'' ?pre"
          by (simp only: local_next_fallback[OF Nil[folded f]] local_next_fallback[OF Nil] fl)
        with ih show ?thesis by (simp only:)
      qed
    qed
  qed
qed

lemma visits_local_done:
  assumes v: "visits graph ns order res" and res: "res = order @ new"
  shows "local_next graph ns new res = None"
proof -
  have "fresh graph res u = []" if "u \<in> set new" for u
    by (rule visits_fresh_closed[OF v res that]) simp
  then have "filter (\<lambda>u. fresh graph res u \<noteq> []) (rev new) = []"
    by (simp add: filter_empty_conv)
  moreover from visits_covers[OF v] have "filter (\<lambda>t. t \<notin> set res) ns = []"
    by (auto simp: filter_empty_conv)
  ultimately show ?thesis by (simp add: local_next_def)
qed


lemma next_visit_local:
  assumes g: "add_edges edges (init_graph nodes) = Inr g" and s: "s \<in> set pre"
  shows "local_next g [s] pre pre = next_visit edges pre"
proof -
  have "fresh g pre u = unvisited_targets edges pre u" for u
    by (simp add: fresh_def unvisited_targets_def built_graph_get[OF g])
  with s show ?thesis
    by (simp add: local_next_def next_visit_def split: list.splits)
qed

lemma visits_edge_order_dfs:
  assumes g: "add_edges edges (init_graph nodes) = Inr g" and v: "visits g [s] [] order"
  shows "edge_order_dfs edges s order"
proof -
  from visits_from_start[OF v] have ne: "order \<noteq> []" and hd: "hd order = s" by simp_all
  then have sin: "s \<in> set order" by (cases order) auto
  have step: "next_visit edges pre = Some x" if split: "order = pre @ x # rest" and "pre \<noteq> []"
    for pre x rest
  proof -
    from that hd have "s \<in> set pre" by (cases pre) auto
    from next_visit_local[OF g this] visits_local_next[OF v, of pre x rest] split
    show ?thesis by simp
  qed
  from visits_local_done[OF v, of order] next_visit_local[OF g sin]
  have "next_visit edges order = None" by simp
  with ne hd step show ?thesis unfolding edge_order_dfs_def by blast
qed

lemma edge_order_dfs_unique_aux:
  assumes "\<forall>p x r. pre @ xs = p @ x # r \<and> p \<noteq> [] \<longrightarrow> next_visit edges p = Some x"
    and "next_visit edges (pre @ xs) = None"
    and "\<forall>p x r. pre @ ys = p @ x # r \<and> p \<noteq> [] \<longrightarrow> next_visit edges p = Some x"
    and "next_visit edges (pre @ ys) = None"
    and "pre \<noteq> []"
  shows "xs = ys"
  using assms
proof (induction xs arbitrary: pre ys)
  case Nil
  show ?case
  proof (cases ys)
    case Nil
    then show ?thesis by simp
  next
    case (Cons y ys')
    with Nil.prems(3,5) have "next_visit edges pre = Some y" by blast
    with Nil.prems(2) show ?thesis by simp
  qed
next
  case (Cons x xs)
  from Cons.prems(1,5) have nx: "next_visit edges pre = Some x" by blast
  show ?case
  proof (cases ys)
    case Nil
    with Cons.prems(4) nx show ?thesis by simp
  next
    case (Cons y ys')
    with Cons.prems(3,5) have "next_visit edges pre = Some y" by blast
    with nx have xy: "y = x" by simp
    have "xs = ys'"
    proof (rule Cons.IH[of "pre @ [x]"])
      show "\<forall>p z r. (pre @ [x]) @ xs = p @ z # r \<and> p \<noteq> [] \<longrightarrow> next_visit edges p = Some z"
        using Cons.prems(1) by simp
      show "next_visit edges ((pre @ [x]) @ xs) = None" using Cons.prems(2) by simp
      show "\<forall>p z r. (pre @ [x]) @ ys' = p @ z # r \<and> p \<noteq> [] \<longrightarrow> next_visit edges p = Some z"
        using Cons.prems(3) by (simp add: \<open>ys = y # ys'\<close> xy)
      show "next_visit edges ((pre @ [x]) @ ys') = None"
        using Cons.prems(4) by (simp add: \<open>ys = y # ys'\<close> xy)
      show "pre @ [x] \<noteq> []" by simp
    qed
    with Cons xy show ?thesis by simp
  qed
qed

lemma edge_order_dfs_unique:
  assumes a: "edge_order_dfs edges s xs" and b: "edge_order_dfs edges s ys"
  shows "xs = ys"
proof -
  from a obtain xs' where xs: "xs = [s] @ xs'" by (cases xs) (auto simp: edge_order_dfs_def)
  from b obtain ys' where ys: "ys = [s] @ ys'" by (cases ys) (auto simp: edge_order_dfs_def)
  have "xs' = ys'"
  proof (rule edge_order_dfs_unique_aux[of "[s]" _ edges])
    show "\<forall>p x r. [s] @ xs' = p @ x # r \<and> p \<noteq> [] \<longrightarrow> next_visit edges p = Some x"
      using a unfolding edge_order_dfs_def xs by blast
    show "next_visit edges ([s] @ xs') = None" using a unfolding edge_order_dfs_def xs by blast
    show "\<forall>p x r. [s] @ ys' = p @ x # r \<and> p \<noteq> [] \<longrightarrow> next_visit edges p = Some x"
      using b unfolding edge_order_dfs_def ys by blast
    show "next_visit edges ([s] @ ys') = None" using b unfolding edge_order_dfs_def ys by blast
    show "[s] \<noteq> []" by simp
  qed
  with xs ys show ?thesis by simp
qed

subsection \<open>The order returned by the resolver\<close>

lemma find_filter_Cons: "filter P xs = x # ys \<Longrightarrow> List.find P xs = Some x"
  by (induction xs) (auto split: if_splits)

lemma find_filter_Nil: "filter P xs = [] \<Longrightarrow> List.find P xs = None"
  by (induction xs) (auto split: if_splits)

lemma edge_rel_trancl_rank:
  assumes "\<forall>e \<in> set edges. rank (source e) < (rank (target e) :: nat)"
  shows "(u, v) \<in> (edge_rel edges)\<^sup>+ \<Longrightarrow> rank u < rank v"
proof (induction rule: trancl_induct)
  case (base y)
  with assms show ?case by (auto simp: edge_rel_def)
next
  case (step y z)
  from step.hyps(2) assms have "rank y < rank z" by (auto simp: edge_rel_def)
  with step.IH show ?case by simp
qed

lemma reachable_acyclic_rank:
  assumes "\<forall>e \<in> set edges. rank (source e) < (rank (target e) :: nat)"
  shows "reachable_acyclic edges s"
  unfolding reachable_acyclic_def using edge_rel_trancl_rank[OF assms] by blast

text \<open>
  Claim C1. Let the graph have exactly one node of type \<^verbatim>\<open>userQuery\<close> and no cycle
  among the nodes reachable from it. Then every order that \<open>build_execution_order\<close>
  returns starts with that node and holds each node reachable from it exactly once and
  no other node. The order is the depth-first order in which ties are broken by the
  position in the edge list: at every position the next node is the target of the first
  edge, in the edge list, from the most recently visited node that still has an edge to
  an unvisited node; and it is the only list that starts with the entry node and goes
  on in this way to the end. An order is returned whenever every edge starts at a
  declared node and the id of the entry node is not the empty string.
\<close>

theorem build_execution_order_reachable_once:
  assumes one: "filter is_userQuery nodes = [entry]"
    and acyc: "reachable_acyclic edges (node_id entry)"
  shows "(source ` set edges \<subseteq> node_id ` set nodes \<and> node_id entry \<noteq> [] \<longrightarrow>
            (\<exists>order. build_execution_order nodes edges = Some (Inr order))) \<and>
         (\<forall>order. build_execution_order nodes edges = Some (Inr order) \<longrightarrow>
            order \<noteq> [] \<and> hd order = node_id entry \<and> distinct order \<and>
            set order = (edge_rel edges)\<^sup>* `` {node_id entry} \<and>
            (\<forall>pre n rest c cs.
               order = pre @ n # rest \<and>
               filter (\<lambda>t. t \<notin> set pre \<and> t \<noteq> n) (targets_of edges n) = c # cs \<longrightarrow>
               (\<exists>rest'. rest = c # rest')) \<and>
            edge_order_dfs edges (node_id entry) order \<and>
            (\<forall>order'. edge_order_dfs edges (node_id entry) order' \<longrightarrow> order' = order))"
proof -
  from one have start: "find_start nodes = Some (node_id entry)"
    by (simp add: find_start_def find_filter_Cons)
  have ret: "\<exists>order. build_execution_order nodes edges = Some (Inr order)"
    if "source ` set edges \<subseteq> node_id ` set nodes" and "node_id entry \<noteq> []"
    using build_execution_order_cases[of edges nodes] that start by auto
  have props: "order \<noteq> [] \<and> hd order = node_id entry \<and> distinct order \<and>
            set order = (edge_rel edges)\<^sup>* `` {node_id entry} \<and>
            (\<forall>pre n rest c cs.
               order = pre @ n # rest \<and>
               filter (\<lambda>t. t \<notin> set pre \<and> t \<noteq> n) (targets_of edges n) = c # cs \<longrightarrow>
               (\<exists>rest'. rest = c # rest')) \<and>
            edge_order_dfs edges (node_id entry) order \<and>
            (\<forall>order'. edge_order_dfs edges (node_id entry) order' \<longrightarrow> order' = order)"
    if ord: "build_execution_order nodes edges = Some (Inr order)" for order
  proof -
    from build_execution_order_cases[of edges nodes] ord start
    obtain g where g: "add_edges edges (init_graph nodes) = Inr g"
      and v: "visits g [node_id entry] [] order"
      by auto
    from visits_from_start[OF v] built_nbr_rel[OF g]
    have "order \<noteq> [] \<and> hd order = node_id entry \<and> distinct order \<and>
            set order = (edge_rel edges)\<^sup>* `` {node_id entry}" by simp
    moreover have "\<exists>rest'. rest = c # rest'"
      if "order = pre @ n # rest"
        and "filter (\<lambda>t. t \<notin> set pre \<and> t \<noteq> n) (targets_of edges n) = c # cs"
      for pre n rest c cs
      using visits_next[OF v that(1), of c cs] that(2) by (simp add: built_graph_get[OF g])
    moreover have dfs: "edge_order_dfs edges (node_id entry) order"
      by (rule visits_edge_order_dfs[OF g v])
    moreover have "order' = order" if "edge_order_dfs edges (node_id entry) order'" for order'
      by (rule edge_order_dfs_unique[OF that dfs])
    ultimately show ?thesis by blast
  qed
  from ret props show ?thesis by blast
qed

subsection \<open>The resolver on the example graphs\<close>

lemma diamond_order:
  "build_execution_order diamond_nodes diamond_edges = Some (Inr [''q'', ''kb'', ''outp'', ''llm''])"
  by (simp add: build_execution_order_def diamond_nodes_def diamond_edges_def init_graph_def
      find_start_def is_userQuery_def dfs_def dfs_for_Cons dfs_for_Nil graph_get_def)

lemma loop_order:
  "build_execution_order loop_nodes loop_edges = Some (Inr [''q'', ''llm''])"
  by (simp add: build_execution_order_def loop_nodes_def loop_edges_def init_graph_def
      find_start_def is_userQuery_def dfs_def dfs_for_Cons dfs_for_Nil graph_get_def)

lemma fan_order:
  "build_execution_order fan_nodes fan_edges = Some (Inr [''q'', ''a'', ''b'', ''c''])"
  by (simp add: build_execution_order_def fan_nodes_def fan_edges_def init_graph_def
      find_start_def is_userQuery_def dfs_def dfs_for_Cons dfs_for_Nil graph_get_def)

lemma fan_other_order_rejected:
  "\<not> edge_order_dfs fan_edges ''q'' [''q'', ''a'', ''c'', ''b'']"
proof
  assume "edge_order_dfs fan_edges ''q'' [''q'', ''a'', ''c'', ''b'']"
  then have "next_visit fan_edges [''q'', ''a''] = Some ''c''"
    unfolding edge_order_dfs_def by (metis append_Cons append_Nil list.distinct(1))
  then show False
    by (simp add: next_visit_def unvisited_targets_def targets_of_def fan_edges_def)
qed


text \<open>
  Claim C5, as amended. The traversal returns on every graph, whether or not a cycle
  can be reached from the entry node: \<^verbatim>\<open>dfs\<close> returns at once on a node that is in
  \<^verbatim>\<open>visited\<close>, and each other call adds a node to it.
\<close>

theorem build_execution_order_terminates:
  "build_execution_order nodes edges \<noteq> None"
  using build_execution_order_cases[of edges nodes] by auto

theorem build_execution_order_reachable_once_witness:
  "filter is_userQuery diamond_nodes = [\<lparr>node_id = ''q'', componentType = ''userQuery''\<rparr>] \<and>
   reachable_acyclic diamond_edges ''q'' \<and>
   build_execution_order diamond_nodes diamond_edges = Some (Inr [''q'', ''kb'', ''outp'', ''llm'']) \<and>
   set [''q'', ''kb'', ''outp'', ''llm''] = (edge_rel diamond_edges)\<^sup>* `` {''q''} \<and>
   edge_order_dfs diamond_edges ''q'' [''q'', ''kb'', ''outp'', ''llm'']"
proof -
  have one: "filter is_userQuery diamond_nodes = [\<lparr>node_id = ''q'', componentType = ''userQuery''\<rparr>]"
    by (simp add: diamond_nodes_def is_userQuery_def)
  have acyc: "reachable_acyclic diamond_edges (node_id \<lparr>node_id = ''q'', componentType = ''userQuery''\<rparr>)"
    by (rule reachable_acyclic_rank[where rank = length]) (simp add: diamond_edges_def)
  from build_execution_order_reachable_once[OF one acyc] diamond_order
  have "set [''q'', ''kb'', ''outp'', ''llm''] = (edge_rel diamond_edges)\<^sup>* `` {''q''} \<and>
        edge_order_dfs diamond_edges ''q'' [''q'', ''kb'', ''outp'', ''llm'']"
    by simp
  with one acyc diamond_order show ?thesis by simp
qed

text \<open>
  Claim C5 as stated fails: on the two-node cycle the entry node lies on a cycle, and
  the resolver returns the order of the two nodes.
\<close>

theorem loop_traversal_returns:
  "(''q'', ''q'') \<in> (edge_rel loop_edges)\<^sup>+ \<and>
   build_execution_order loop_nodes loop_edges = Some (Inr [''q'', ''llm''])"
proof -
  have "(''q'', ''llm'') \<in> edge_rel loop_edges" and "(''llm'', ''q'') \<in> edge_rel loop_edges"
    by (simp_all add: edge_rel_def loop_edges_def)
  then have "(''q'', ''q'') \<in> (edge_rel loop_edges)\<^sup>+" by (rule trancl_into_trancl2[OF _ r_into_trancl])
  with loop_order show ?thesis by simp
qed

section \<open>Properties of the executor\<close>

subsection \<open>What a step adds to the trace\<close>

lemma appends_refl: "appends P tr tr"
  by (simp add: appends_def)

lemma appends_trans: "appends P tr tr1 \<Longrightarrow> appends P tr1 tr2 \<Longrightarrow> appends P tr tr2"
  by (auto simp: appends_def)

lemma appends_snoc: "P c \<Longrightarrow> appends P tr (tr @ [c])"
  by (simp add: appends_def)

lemma appends_step: "appends P tr tr1 \<Longrightarrow> P c \<Longrightarrow> appends P tr (tr1 @ [c])"
  by (auto simp: appends_def)

lemma appends_mono: "appends P tr tr' \<Longrightarrow> (\<And>c. P c \<Longrightarrow> Q c) \<Longrightarrow> appends Q tr tr'"
  by (auto simp: appends_def list_all_iff)

lemma asks_simps:
  "asks n (GetCollection name)" "asks n (OpenAIEmbeddings texts)" "asks n (GeminiEmbedContent text)"
  "asks n (CollectionQuery name emb n)" "asks n (WebSearch q p)" "asks n (OpenAIChat m ms t)"
  "asks n (GeminiGenerate m pr)" "\<not> asks n (Step nid)"
  by (simp_all add: asks_def)

lemma gemini_embeddings_trace:
  "appends (asks n) tr (snd (get_gemini_embeddings env texts tr))"
proof (induction texts arbitrary: tr)
  case Nil
  show ?case by (simp add: appends_refl)
next
  case (Cons t texts)
  have one: "appends (asks n) tr (tr @ [GeminiEmbedContent t])"
    by (rule appends_snoc) (simp add: asks_simps)
  show ?case
  proof (cases "gemini_embed_content env tr t")
    case (Inl err)
    with one show ?thesis by simp
  next
    case (Inr emb)
    from appends_trans[OF one Cons.IH[of "tr @ [GeminiEmbedContent t]"]] Inr
    show ?thesis by (auto split: prod.splits sum.splits)
  qed
qed

lemma openai_embeddings_trace:
  "appends (asks n) tr (snd (get_openai_embeddings env texts tr))"
  by (simp add: get_openai_embeddings_def appends_snoc asks_simps)

lemma query_collection_trace:
  "appends (asks n) tr (snd (query_collection env name text mdl n tr))"
proof (cases "get_collection env tr name")
  case (Some err)
  then show ?thesis by (simp add: query_collection_def appends_snoc asks_simps)
next
  case None
  let ?tr0 = "tr @ [GetCollection name]"
  let ?e = "if mdl = JStr ''openai'' then get_openai_embeddings env [text] ?tr0
            else get_gemini_embeddings env [text] ?tr0"
  have t0: "appends (asks n) tr ?tr0" by (rule appends_snoc) (simp add: asks_simps)
  have "appends (asks n) ?tr0 (snd ?e)"
    using openai_embeddings_trace[of n ?tr0 env "[text]"] gemini_embeddings_trace[of n ?tr0 env "[text]"]
    by (simp del: get_gemini_embeddings.simps)
  with t0 have t1: "appends (asks n) tr (snd ?e)" by (rule appends_trans)
  obtain r tr1 where e: "?e = (r, tr1)" by (cases ?e)
  with t1 have t1': "appends (asks n) tr tr1" by simp
  have t2: "appends (asks n) tr (tr1 @ [CollectionQuery name emb n])" for emb
    by (rule appends_step[OF t1']) (simp add: asks_simps)
  have qc: "query_collection env name text mdl n tr =
      (case r of Inl err \<Rightarrow> (Inl err, tr1)
       | Inr embs \<Rightarrow>
               (case first_item embs of
                  Inl err \<Rightarrow> (Inl err, tr1)
                | Inr query_embedding \<Rightarrow>
                    (case collection_query env tr1 name query_embedding n of
                       Inl err \<Rightarrow> (Inl err, tr1 @ [CollectionQuery name query_embedding n])
                     | Inr results \<Rightarrow>
                         (case first_item (documents results) of
                            Inl err \<Rightarrow> (Inl err, tr1 @ [CollectionQuery name query_embedding n])
                          | Inr docs \<Rightarrow>
                              (case first_item (distances results) of
                                 Inl err \<Rightarrow> (Inl err, tr1 @ [CollectionQuery name query_embedding n])
                               | Inr dists \<Rightarrow>
                                   (Inr (zip docs dists),
                                    tr1 @ [CollectionQuery name query_embedding n]))))))"
    unfolding query_collection_def None using e by (simp del: get_gemini_embeddings.simps)
  show ?thesis unfolding qc using t1' t2 by (simp split: sum.splits)
qed

lemma call_model_trace:
  "\<exists>c. snd (call_model env p w sys prov m t tr) = tr @ [c] \<and> sent_prompt c = Some p \<and> asks n c"
  by (cases "prov = JStr ''openai''")
     (auto simp: call_model_def Let_def asks_simps split: sum.splits)

lemma call_model_result:
  "call_model env p w sys prov m t tr = (Inr llm, tr') \<Longrightarrow> llm_model llm = m \<and> llm_web_context llm = w"
  by (auto simp: call_model_def Let_def split: sum.splits if_splits)

lemma generate_response_trace:
  "appends (asks n) tr (snd (generate_response env q ctx sys prov m t ews sp tr))"
proof (cases "truthy ews")
  case False
  from call_model_trace[of env "context_prompt q ctx" None sys prov m t tr n]
  show ?thesis using False by (auto simp: generate_response_def appends_def)
next
  case True
  have ws: "appends (asks n) tr (tr @ [WebSearch q sp])"
    by (rule appends_snoc) (simp add: asks_simps)
  show ?thesis
  proof (cases "web_search env tr q sp")
    case (Inl err)
    with True ws show ?thesis by (simp add: generate_response_def)
  next
    case (Inr w)
    from call_model_trace[of env "web_prompt w (context_prompt q ctx)" "Some w" sys prov m t
        "tr @ [WebSearch q sp]" n]
    have "appends (asks n) (tr @ [WebSearch q sp])
            (snd (call_model env (web_prompt w (context_prompt q ctx)) (Some w) sys prov m t
                   (tr @ [WebSearch q sp])))"
      by (auto simp: appends_def)
    from appends_trans[OF ws this] True Inr show ?thesis by (simp add: generate_response_def)
  qed
qed

lemma generate_response_result:
  assumes "generate_response env q ctx sys prov m t ews sp tr = (Inr llm, tr')"
  shows "llm_model llm = m \<and>
         llm_web_context llm =
           (if truthy ews
            then (case web_search env tr q sp of Inr w \<Rightarrow> Some w | Inl err \<Rightarrow> None)
            else None)"
proof (cases "truthy ews")
  case False
  with assms call_model_result show ?thesis by (simp add: generate_response_def)
next
  case True
  show ?thesis
  proof (cases "web_search env tr q sp")
    case (Inl err)
    with True assms show ?thesis by (simp add: generate_response_def)
  next
    case (Inr w)
    with True assms call_model_result show ?thesis by (simp add: generate_response_def)
  qed
qed

lemma execute_node_trace:
  "\<exists>new. snd (execute_node env nodes cfgs nid st tr) = tr @ Step nid # new \<and> list_all (asks 3) new"
proof (cases "List.find (\<lambda>n. node_id n = nid) nodes")
  case None
  then show ?thesis by (simp add: execute_node_def)
next
  case (Some nd)
  let ?cfg = "node_config cfgs nid"
  from query_collection_trace[of 3 "tr @ [Step nid]" env
      "config_get ?cfg ''collectionName'' (JStr ''default'')" "query st"
      "config_get ?cfg ''embeddingModel'' (JStr ''openai'')"]
  have kb: "\<exists>new. snd (query_collection env
                       (config_get ?cfg ''collectionName'' (JStr ''default'')) (query st)
                       (config_get ?cfg ''embeddingModel'' (JStr ''openai'')) 3 (tr @ [Step nid]))
                  = tr @ Step nid # new \<and> list_all (asks 3) new"
    by (auto simp: appends_def)
  from generate_response_trace[of 3 "tr @ [Step nid]" env "query st" "context' st"
      "config_get ?cfg ''systemPrompt'' JNone"
      "config_get ?cfg ''provider'' (JStr ''openai'')"
      "config_get ?cfg ''model'' (JStr ''gpt-4'')"
      "config_get ?cfg ''temperature'' (JNum (7 / 10))"
      "config_get ?cfg ''enableWebSearch'' (JBool False)"
      "config_get ?cfg ''searchProvider'' (JStr ''serpapi'')"]
  have llm: "\<exists>new. snd (generate_response env (query st) (context' st)
      (config_get ?cfg ''systemPrompt'' JNone)
      (config_get ?cfg ''provider'' (JStr ''openai''))
      (config_get ?cfg ''model'' (JStr ''gpt-4''))
      (config_get ?cfg ''temperature'' (JNum (7 / 10)))
      (config_get ?cfg ''enableWebSearch'' (JBool False))
      (config_get ?cfg ''searchProvider'' (JStr ''serpapi'')) (tr @ [Step nid]))
                  = tr @ Step nid # new \<and> list_all (asks 3) new"
    by (auto simp: appends_def)
  show ?thesis
    using Some kb llm
    by (auto simp: execute_node_def Let_def split: prod.splits sum.splits)
qed

subsection \<open>The loop over the order\<close>

lemma run_nodes_append:
  "run_nodes env nodes cfgs (xs @ ys) st tr =
     (case run_nodes env nodes cfgs xs st tr of
        (Inl err, tr') \<Rightarrow> (Inl err, tr')
      | (Inr st', tr') \<Rightarrow> run_nodes env nodes cfgs ys st' tr')"
  by (induction xs arbitrary: st tr) (auto split: prod.splits sum.splits)

lemma run_nodes_fail:
  assumes "run_nodes env nodes cfgs pre st0 tr0 = (Inr st, tr)"
    and "execute_node env nodes cfgs nid st tr = (Inl err, tr')"
  shows "run_nodes env nodes cfgs (pre @ nid # post) st0 tr0 = (Inl err, tr')"
  using assms by (simp add: run_nodes_append)

lemma passthrough_step:
  assumes "List.find (\<lambda>n. node_id n = nid) nodes = Some nd"
    and "componentType nd = ''userQuery'' \<or> componentType nd = ''output''"
  shows "execute_node env nodes cfgs nid st tr = (Inr st, tr @ [Step nid])"
  using assms by (auto simp: execute_node_def Let_def)

lemma find_node_Some:
  "nid \<in> node_id ` set nodes \<Longrightarrow>
     \<exists>nd \<in> set nodes. List.find (\<lambda>n. node_id n = nid) nodes = Some nd"
  by (induction nodes) auto

lemma find_node_in: "List.find P nodes = Some nd \<Longrightarrow> nd \<in> set nodes \<and> P nd"
  by (induction nodes) (auto split: if_splits)

lemma passthrough_run:
  assumes all: "\<forall>n \<in> set nodes. componentType n = ''userQuery'' \<or> componentType n = ''output''"
  shows "\<exists>ys. snd (run_nodes env nodes cfgs xs st tr) = tr @ map Step ys \<and>
           (fst (run_nodes env nodes cfgs xs st tr) = Inr st \<or>
            fst (run_nodes env nodes cfgs xs st tr) = Inl StopIteration) \<and>
           (set xs \<subseteq> node_id ` set nodes \<longrightarrow> fst (run_nodes env nodes cfgs xs st tr) = Inr st)"
proof (induction xs arbitrary: tr)
  case Nil
  show ?case by simp
next
  case (Cons x xs)
  show ?case
  proof (cases "List.find (\<lambda>n. node_id n = x) nodes")
    case None
    then have "x \<notin> node_id ` set nodes" by (auto simp: find_None_iff)
    moreover from None have "run_nodes env nodes cfgs (x # xs) st tr = (Inl StopIteration, tr @ map Step [x])"
      by (simp add: execute_node_def)
    ultimately show ?thesis by (metis fst_conv snd_conv list.set_intros(1) subsetD)
  next
    case (Some nd)
    with all find_node_in[OF Some] have "execute_node env nodes cfgs x st tr = (Inr st, tr @ [Step x])"
      by (intro passthrough_step[OF Some]) blast
    then have eq: "run_nodes env nodes cfgs (x # xs) st tr = run_nodes env nodes cfgs xs st (tr @ [Step x])"
      by simp
    from Cons.IH[of "tr @ [Step x]"] obtain ys where
      ys: "snd (run_nodes env nodes cfgs xs st (tr @ [Step x])) = (tr @ [Step x]) @ map Step ys"
      and r: "fst (run_nodes env nodes cfgs xs st (tr @ [Step x])) = Inr st \<or>
            fst (run_nodes env nodes cfgs xs st (tr @ [Step x])) = Inl StopIteration"
      and ok: "set xs \<subseteq> node_id ` set nodes \<longrightarrow> fst (run_nodes env nodes cfgs xs st (tr @ [Step x])) = Inr st"
      by blast
    from ys have "snd (run_nodes env nodes cfgs (x # xs) st tr) = tr @ map Step (x # ys)"
      unfolding eq by simp
    with r ok show ?thesis unfolding eq by (intro exI[of _ "x # ys"]) auto
  qed
qed

text \<open>
  Claim C2, as amended. On a graph without a node of type \<^verbatim>\<open>userQuery\<close> the run fails
  before the loop starts: the trace is empty, so no node was stepped and no capability
  called. The exception is the \<^verbatim>\<open>ValueError\<close> "No User Query component found" (the
  spec's \<open>MissingEntryNodeError\<close>) when every edge starts at a declared node, and
  otherwise the \<^verbatim>\<open>KeyError\<close> of an undeclared edge source, raised while the adjacency
  dictionary is built.
\<close>

theorem execute_workflow_without_entry:
  assumes none: "filter is_userQuery nodes = []"
  shows "(\<exists>err. execute_workflow env q nodes edges cfgs = Some (Inl err, [])) \<and>
         (source ` set edges \<subseteq> node_id ` set nodes \<longrightarrow>
            execute_workflow env q nodes edges cfgs =
              Some (Inl (ValueError ''No User Query component found''), [])) \<and>
         (\<not> source ` set edges \<subseteq> node_id ` set nodes \<longrightarrow>
            (\<exists>s \<in> source ` set edges. s \<notin> node_id ` set nodes \<and>
               execute_workflow env q nodes edges cfgs = Some (Inl (KeyError s), [])))"
proof -
  from none have "find_start nodes = None"
    by (simp add: find_start_def find_filter_Nil)
  with build_execution_order_cases[of edges nodes] show ?thesis
    by (auto simp: execute_workflow_def)
qed

text \<open>
  Claim C10. A node of the order whose component type is none of the four known ones is
  passed over: the step returns the state unchanged, adds only its own \<open>Step\<close> to the
  trace, and the loop goes on with the next node.
\<close>

theorem unknown_component_type_skipped:
  assumes "List.find (\<lambda>n. node_id n = nid) nodes = Some nd"
    and "componentType nd \<notin> {''userQuery'', ''knowledgeBase'', ''llmEngine'', ''output''}"
  shows "execute_node env nodes cfgs nid st tr = (Inr st, tr @ [Step nid]) \<and>
         run_nodes env nodes cfgs (nid # rest) st tr =
           run_nodes env nodes cfgs rest st (tr @ [Step nid])"
  using assms by (simp add: execute_node_def Let_def)

text \<open>
  Claim C9. The step of a \<^verbatim>\<open>userQuery\<close> or \<^verbatim>\<open>output\<close> node returns the state it was
  given and calls nothing. On a graph with only such nodes a run calls no capability,
  every state it returns is the initial one, whose response is absent, and it does
  return that state when the edges join declared nodes and the entry id is not empty.
\<close>

theorem passthrough_nodes_leave_state:
  "(List.find (\<lambda>n. node_id n = nid) nodes = Some nd \<and>
      (componentType nd = ''userQuery'' \<or> componentType nd = ''output'') \<longrightarrow>
      execute_node env nodes cfgs nid st tr = (Inr st, tr @ [Step nid])) \<and>
   ((\<forall>n \<in> set nodes. componentType n = ''userQuery'' \<or> componentType n = ''output'') \<longrightarrow>
      (\<forall>res tr'. execute_workflow env q nodes edges cfgs = Some (res, tr') \<longrightarrow>
          list_all (\<lambda>c. \<not> external c) tr' \<and>
          (\<forall>r. res = Inr r \<longrightarrow> r = initial_state q \<and> response r = None)) \<and>
      (source ` set edges \<union> target ` set edges \<subseteq> node_id ` set nodes \<and>
       (\<exists>s. find_start nodes = Some s \<and> s \<noteq> []) \<longrightarrow>
         (\<exists>tr'. execute_workflow env q nodes edges cfgs = Some (Inr (initial_state q), tr'))))"
proof (intro conjI impI)
  assume "List.find (\<lambda>n. node_id n = nid) nodes = Some nd \<and>
      (componentType nd = ''userQuery'' \<or> componentType nd = ''output'')"
  then show "execute_node env nodes cfgs nid st tr = (Inr st, tr @ [Step nid])"
    using passthrough_step by blast
next
  assume all: "\<forall>n \<in> set nodes. componentType n = ''userQuery'' \<or> componentType n = ''output''"
  show "\<forall>res tr'. execute_workflow env q nodes edges cfgs = Some (res, tr') \<longrightarrow>
          list_all (\<lambda>c. \<not> external c) tr' \<and>
          (\<forall>r. res = Inr r \<longrightarrow> r = initial_state q \<and> response r = None)"
  proof (intro allI impI)
    fix res tr'
    assume run: "execute_workflow env q nodes edges cfgs = Some (res, tr')"
    show "list_all (\<lambda>c. \<not> external c) tr' \<and>
          (\<forall>r. res = Inr r \<longrightarrow> r = initial_state q \<and> response r = None)"
    proof (cases "build_execution_order nodes edges")
      case None
      with run show ?thesis by (simp add: execute_workflow_def)
    next
      case (Some b)
      show ?thesis
      proof (cases b)
        case (Inl err)
        with Some run show ?thesis by (auto simp: execute_workflow_def)
      next
        case (Inr order)
        with Some run have r: "run_nodes env nodes cfgs order (initial_state q) [] = (res, tr')"
          by (simp add: execute_workflow_def)
        from passthrough_run[OF all, of env cfgs order "initial_state q" "[]"] r
        obtain ys where "tr' = map Step ys"
          and "res = Inr (initial_state q) \<or> res = Inl StopIteration" by auto
        then show ?thesis by (auto simp: list_all_iff initial_state_def)
      qed
    qed
  qed
next
  assume all: "\<forall>n \<in> set nodes. componentType n = ''userQuery'' \<or> componentType n = ''output''"
  assume wf: "source ` set edges \<union> target ` set edges \<subseteq> node_id ` set nodes \<and>
       (\<exists>s. find_start nodes = Some s \<and> s \<noteq> [])"
  then obtain s where s: "find_start nodes = Some s" "s \<noteq> []" by blast
  from wf build_execution_order_cases[of edges nodes] s
  obtain g order where g: "add_edges edges (init_graph nodes) = Inr g"
    and v: "visits g [s] [] order"
    and ord: "build_execution_order nodes edges = Some (Inr order)"
    by auto
  from s(1) have sin: "s \<in> node_id ` set nodes"
    by (auto simp: find_start_def dest: find_node_in)
  have "set order \<subseteq> node_id ` set nodes"
  proof
    fix x assume "x \<in> set order"
    with visits_from_start[OF v] built_nbr_rel[OF g] have "(s, x) \<in> (edge_rel edges)\<^sup>*" by simp
    then show "x \<in> node_id ` set nodes"
    proof (cases rule: rtranclE)
      case base
      with sin show ?thesis by simp
    next
      case (step y)
      then have "x \<in> target ` set edges" by (auto simp: edge_rel_def)
      with wf show ?thesis by blast
    qed
  qed
  with passthrough_run[OF all, of env cfgs order "initial_state q" "[]"]
  have "fst (run_nodes env nodes cfgs order (initial_state q) []) = Inr (initial_state q)" by blast
  then have "run_nodes env nodes cfgs order (initial_state q) [] =
      (Inr (initial_state q), snd (run_nodes env nodes cfgs order (initial_state q) []))"
    by (metis prod.collapse)
  with ord have "execute_workflow env q nodes edges cfgs =
      Some (Inr (initial_state q), snd (run_nodes env nodes cfgs order (initial_state q) []))"
    by (simp add: execute_workflow_def)
  then show "\<exists>tr'. execute_workflow env q nodes edges cfgs = Some (Inr (initial_state q), tr')"
    by blast
qed

subsection \<open>Retrieval and generation steps\<close>

lemmas run_defs = execute_node_def query_collection_def get_openai_embeddings_def first_item_def
  generate_response_def call_model_def context_prompt_def web_prompt_def config_get_def
  node_config_def initial_state_def Let_def

lemma llm_step:
  assumes "List.find (\<lambda>n. node_id n = nid) nodes = Some nd"
    and "componentType nd = ''llmEngine''"
  shows "execute_node env nodes cfgs nid st tr =
     (case generate_at env cfgs nid st tr of
        (Inl err, tr') \<Rightarrow> (Inl err, tr')
      | (Inr llm, tr') \<Rightarrow>
          (Inr (st\<lparr>response := Some (llm_text llm),
                    metadata := Some \<lparr>model = llm_model llm,
                                       web_context = llm_web_context llm\<rparr>\<rparr>), tr'))"
  using assms by (simp add: execute_node_def Let_def)

lemma kb_step:
  assumes "List.find (\<lambda>n. node_id n = nid) nodes = Some nd"
    and "componentType nd = ''knowledgeBase''"
  shows "execute_node env nodes cfgs nid st tr =
     (case retrieve_at env cfgs nid st tr of
        (Inr results, tr') \<Rightarrow>
          (Inr (st\<lparr>context' := Some (join ''\<newline>\<newline>'' (map fst results))\<rparr>), tr')
      | (Inl err, tr') \<Rightarrow> (Inr (st\<lparr>context' := None\<rparr>), tr'))"
  using assms by (simp add: execute_node_def Let_def)

text \<open>
  Claim C3. Let the order be \<open>pre @ nid # post\<close> with \<open>nid\<close> a generation node, and let
  the call of \<^verbatim>\<open>generate_response\<close> for it raise \<open>err\<close>. Then the run raises \<open>err\<close>
  and returns no state; after the \<open>Step\<close> of \<open>nid\<close> the trace holds calls of
  capabilities only, hence no step of a later node; and the outcome is the same whatever
  nodes follow \<open>nid\<close> in the order.
\<close>

theorem generation_failure_aborts_run:
  assumes ord: "build_execution_order nodes edges = Some (Inr (pre @ nid # post))"
    and pre: "run_nodes env nodes cfgs pre (initial_state q) [] = (Inr st, tr)"
    and nd: "List.find (\<lambda>n. node_id n = nid) nodes = Some nd"
    and ty: "componentType nd = ''llmEngine''"
    and fail: "generate_at env cfgs nid st tr = (Inl err, tr')"
  shows "execute_workflow env q nodes edges cfgs = Some (Inl err, tr') \<and>
         (\<exists>calls. tr' = tr @ Step nid # calls \<and> list_all external calls) \<and>
         (\<forall>post'. run_nodes env nodes cfgs (pre @ nid # post') (initial_state q) [] = (Inl err, tr'))"
proof -
  from llm_step[OF nd ty] fail have step: "execute_node env nodes cfgs nid st tr = (Inl err, tr')"
    by simp
  have all: "run_nodes env nodes cfgs (pre @ nid # post') (initial_state q) [] = (Inl err, tr')"
    for post'
    by (rule run_nodes_fail[OF pre step])
  from execute_node_trace[of env nodes cfgs nid st tr] step
  obtain calls where "tr' = tr @ Step nid # calls" and "list_all (asks 3) calls" by auto
  then have "\<exists>calls. tr' = tr @ Step nid # calls \<and> list_all external calls"
    by (auto simp: list_all_iff asks_def)
  moreover from ord all[of post] have "execute_workflow env q nodes edges cfgs = Some (Inl err, tr')"
    by (simp add: execute_workflow_def)
  ultimately show ?thesis using all by blast
qed

text \<open>
  Claim C4. If \<^verbatim>\<open>query_collection\<close> raises while a retrieval node is executed, the
  step returns a state whose context is \<open>None\<close>, the loop goes on with the rest of the
  order from that state, and a generation node executed there calls
  \<^verbatim>\<open>generate_response\<close> with the context \<open>None\<close>.
\<close>

theorem retrieval_failure_absorbed:
  assumes nd: "List.find (\<lambda>n. node_id n = nid) nodes = Some nd"
    and ty: "componentType nd = ''knowledgeBase''"
    and fail: "retrieve_at env cfgs nid st tr = (Inl err, tr')"
  shows "execute_node env nodes cfgs nid st tr = (Inr (st\<lparr>context' := None\<rparr>), tr') \<and>
         run_nodes env nodes cfgs (nid # rest) st tr =
           run_nodes env nodes cfgs rest (st\<lparr>context' := None\<rparr>) tr' \<and>
         (\<forall>gid gd. List.find (\<lambda>n. node_id n = gid) nodes = Some gd \<and>
              componentType gd = ''llmEngine'' \<longrightarrow>
            execute_node env nodes cfgs gid (st\<lparr>context' := None\<rparr>) tr' =
              (case generate_response env (query st) None
                      (config_get (node_config cfgs gid) ''systemPrompt'' JNone)
                      (config_get (node_config cfgs gid) ''provider'' (JStr ''openai''))
                      (config_get (node_config cfgs gid) ''model'' (JStr ''gpt-4''))
                      (config_get (node_config cfgs gid) ''temperature'' (JNum (7 / 10)))
                      (config_get (node_config cfgs gid) ''enableWebSearch'' (JBool False))
                      (config_get (node_config cfgs gid) ''searchProvider'' (JStr ''serpapi''))
                      (tr' @ [Step gid]) of
                 (Inl e, t) \<Rightarrow> (Inl e, t)
               | (Inr llm, t) \<Rightarrow>
                   (Inr (st\<lparr>context' := None, response := Some (llm_text llm),
                             metadata := Some \<lparr>model = llm_model llm,
                                                web_context = llm_web_context llm\<rparr>\<rparr>), t)))"
proof -
  from kb_step[OF nd ty] fail
  have step: "execute_node env nodes cfgs nid st tr = (Inr (st\<lparr>context' := None\<rparr>), tr')"
    by simp
  then have "run_nodes env nodes cfgs (nid # rest) st tr =
           run_nodes env nodes cfgs rest (st\<lparr>context' := None\<rparr>) tr'" by simp
  moreover have "execute_node env nodes cfgs gid (st\<lparr>context' := None\<rparr>) tr' =
              (case generate_response env (query st) None
                      (config_get (node_config cfgs gid) ''systemPrompt'' JNone)
                      (config_get (node_config cfgs gid) ''provider'' (JStr ''openai''))
                      (config_get (node_config cfgs gid) ''model'' (JStr ''gpt-4''))
                      (config_get (node_config cfgs gid) ''temperature'' (JNum (7 / 10)))
                      (config_get (node_config cfgs gid) ''enableWebSearch'' (JBool False))
                      (config_get (node_config cfgs gid) ''searchProvider'' (JStr ''serpapi''))
                      (tr' @ [Step gid]) of
                 (Inl e, t) \<Rightarrow> (Inl e, t)
               | (Inr llm, t) \<Rightarrow>
                   (Inr (st\<lparr>context' := None, response := Some (llm_text llm),
                             metadata := Some \<lparr>model = llm_model llm,
                                                web_context = llm_web_context llm\<rparr>\<rparr>), t))"
    if "List.find (\<lambda>n. node_id n = gid) nodes = Some gd" and "componentType gd = ''llmEngine''"
    for gid gd
    using llm_step[OF that, of env cfgs "st\<lparr>context' := None\<rparr>" tr'] by simp
  ultimately show ?thesis using step by blast
qed

text \<open>
  Claim C6, as amended. The prompt that reaches the language model is the query alone
  when the context is \<open>None\<close> or the empty string, and the template around context and
  query when the context is a non-empty string; if web search is enabled and returns
  \<open>w\<close>, the search block is put in front of that.
\<close>

theorem prompt_sent_to_model:
  assumes "truthy ews \<longrightarrow> web_search env tr q sp = Inr w"
  shows "sent_prompt (last (snd (generate_response env q ctx sys prov m t ews sp tr))) =
     Some ((if truthy ews then ''Web Search Results:\<newline>'' @ w @ ''\<newline>\<newline>'' else []) @
           (case ctx of
              None \<Rightarrow> q
            | Some c \<Rightarrow> if c = [] then q else ''Context:\<newline>'' @ c @ ''\<newline>\<newline>Question: '' @ q))"
proof (cases "truthy ews")
  case False
  from call_model_trace[of env "context_prompt q ctx" None sys prov m t tr 3]
  obtain c where "snd (call_model env (context_prompt q ctx) None sys prov m t tr) = tr @ [c]"
    and "sent_prompt c = Some (context_prompt q ctx)" by blast
  with False show ?thesis
    by (simp add: generate_response_def context_prompt_def split: option.splits)
next
  case True
  with assms have ws: "web_search env tr q sp = Inr w" by simp
  from call_model_trace[of env "web_prompt w (context_prompt q ctx)" "Some w" sys prov m t
      "tr @ [WebSearch q sp]" 3]
  obtain c where "snd (call_model env (web_prompt w (context_prompt q ctx)) (Some w) sys prov m t
      (tr @ [WebSearch q sp])) = (tr @ [WebSearch q sp]) @ [c]"
    and "sent_prompt c = Some (web_prompt w (context_prompt q ctx))" by blast
  with True ws show ?thesis
    by (simp add: generate_response_def context_prompt_def web_prompt_def split: option.splits)
qed

subsection \<open>Retrieval: result count, defaults, context\<close>

lemma query_collection_shape:
  assumes "get_collection env tr name = None"
    and "(if mdl = JStr ''openai''
          then get_openai_embeddings env [txt] (tr @ [GetCollection name])
          else get_gemini_embeddings env [txt] (tr @ [GetCollection name])) = (r, tr1)"
  shows "\<exists>more. snd (query_collection env name txt mdl n tr) = tr1 @ more"
  unfolding query_collection_def using assms
  by (auto simp del: get_gemini_embeddings.simps split: sum.splits)

lemma query_collection_calls:
  "\<exists>more. snd (query_collection env name txt mdl n tr) = tr @ GetCollection name # more \<and>
     (get_collection env tr name = None \<and> mdl = JStr ''openai'' \<longrightarrow>
        (\<exists>more'. more = OpenAIEmbeddings [txt] # more'))"
proof (cases "get_collection env tr name")
  case (Some err)
  then show ?thesis by (simp add: query_collection_def)
next
  case None
  let ?tr0 = "tr @ [GetCollection name]"
  let ?e = "if mdl = JStr ''openai'' then get_openai_embeddings env [txt] ?tr0
            else get_gemini_embeddings env [txt] ?tr0"
  obtain r tr1 where e: "?e = (r, tr1)" by (cases ?e)
  from query_collection_shape[OF None e] obtain more
    where m: "snd (query_collection env name txt mdl n tr) = tr1 @ more" by blast
  show ?thesis
  proof (cases "mdl = JStr ''openai''")
    case True
    with e have "tr1 = ?tr0 @ [OpenAIEmbeddings [txt]]"
      by (simp add: get_openai_embeddings_def)
    with m show ?thesis by simp
  next
    case False
    from gemini_embeddings_trace[of n ?tr0 env "[txt]"] e False
    obtain new where "tr1 = ?tr0 @ new" by (auto simp: appends_def simp del: get_gemini_embeddings.simps)
    with m False show ?thesis by simp
  qed
qed

lemma run_nodes_trace:
  "\<exists>new. snd (run_nodes env nodes cfgs xs st tr) = tr @ new \<and>
     (\<forall>name emb k. CollectionQuery name emb k \<in> set new \<longrightarrow> k = 3)"
proof (induction xs arbitrary: st tr)
  case Nil
  show ?case by simp
next
  case (Cons x xs)
  from execute_node_trace[of env nodes cfgs x st tr] obtain new1
    where n1: "snd (execute_node env nodes cfgs x st tr) = tr @ Step x # new1"
      and a1: "list_all (asks 3) new1" by blast
  from a1 have k1: "\<forall>name emb k. CollectionQuery name emb k \<in> set (Step x # new1) \<longrightarrow> k = 3"
    by (auto simp: list_all_iff asks_def)
  obtain r tr1 where step: "execute_node env nodes cfgs x st tr = (r, tr1)"
    by (cases "execute_node env nodes cfgs x st tr")
  with n1 have tr1: "tr1 = tr @ Step x # new1" by simp
  show ?case
  proof (cases r)
    case (Inl err)
    with step tr1 k1 show ?thesis by simp
  next
    case (Inr st')
    from Cons.IH[of st' tr1] obtain new2
      where n2: "snd (run_nodes env nodes cfgs xs st' tr1) = tr1 @ new2"
        and k2: "\<forall>name emb k. CollectionQuery name emb k \<in> set new2 \<longrightarrow> k = 3" by blast
    from step Inr n2 tr1
    have "snd (run_nodes env nodes cfgs (x # xs) st tr) = tr @ (Step x # new1 @ new2)" by simp
    moreover from k1 k2
    have "\<forall>name emb k. CollectionQuery name emb k \<in> set (Step x # new1 @ new2) \<longrightarrow> k = 3"
      by auto
    ultimately show ?thesis by blast
  qed
qed

text \<open>
  Claim C7. Every query of the vector store in the trace of a run asks for three
  results. At a retrieval node whose configuration has no \<^verbatim>\<open>collectionName\<close> the
  collection fetched is \<^verbatim>\<open>"default"\<close>; if it has no \<^verbatim>\<open>embeddingModel\<close> and the
  collection is found, the query text is embedded with OpenAI; and when
  \<^verbatim>\<open>query_collection\<close> returns, the context becomes the contents of the returned chunks
  joined by a blank line.
\<close>

theorem retrieval_top3_defaults_join:
  "(\<forall>res tr'. execute_workflow env q nodes edges cfgs = Some (res, tr') \<longrightarrow>
      (\<forall>name emb k. CollectionQuery name emb k \<in> set tr' \<longrightarrow> k = 3)) \<and>
   (List.find (\<lambda>n. node_id n = nid) nodes = Some nd \<and> componentType nd = ''knowledgeBase'' \<longrightarrow>
      (node_config cfgs nid ''collectionName'' = None \<longrightarrow>
         (\<exists>more. snd (execute_node env nodes cfgs nid st tr) =
            tr @ Step nid # GetCollection (JStr ''default'') # more)) \<and>
      (node_config cfgs nid ''embeddingModel'' = None \<and>
       get_collection env (tr @ [Step nid])
         (config_get (node_config cfgs nid) ''collectionName'' (JStr ''default'')) = None \<longrightarrow>
         (\<exists>more. snd (execute_node env nodes cfgs nid st tr) =
            tr @ Step nid #
            GetCollection (config_get (node_config cfgs nid) ''collectionName'' (JStr ''default'')) #
            OpenAIEmbeddings [query st] # more)) \<and>
      (\<forall>results tr'. retrieve_at env cfgs nid st tr = (Inr results, tr') \<longrightarrow>
         execute_node env nodes cfgs nid st tr =
           (Inr (st\<lparr>context' := Some (join ''\<newline>\<newline>'' (map fst results))\<rparr>), tr')))"
proof (intro conjI impI allI)
  fix res tr' name emb k
  assume run: "execute_workflow env q nodes edges cfgs = Some (res, tr')"
    and c: "CollectionQuery name emb k \<in> set tr'"
  show "k = 3"
  proof (cases "build_execution_order nodes edges")
    case None
    with run show ?thesis by (simp add: execute_workflow_def)
  next
    case (Some b)
    show ?thesis
    proof (cases b)
      case (Inl err)
      with Some run c show ?thesis by (auto simp: execute_workflow_def)
    next
      case (Inr order)
      with Some run have "run_nodes env nodes cfgs order (initial_state q) [] = (res, tr')"
        by (simp add: execute_workflow_def)
      with run_nodes_trace[of env nodes cfgs order "initial_state q" "[]"] c
      show ?thesis by auto
    qed
  qed
next
  assume kb: "List.find (\<lambda>n. node_id n = nid) nodes = Some nd \<and> componentType nd = ''knowledgeBase''"
    and omit: "node_config cfgs nid ''collectionName'' = None"
  from kb have step: "snd (execute_node env nodes cfgs nid st tr) = snd (retrieve_at env cfgs nid st tr)"
    by (auto simp: kb_step split: prod.splits sum.splits)
  from omit have "config_get (node_config cfgs nid) ''collectionName'' (JStr ''default'') = JStr ''default''"
    by (simp add: config_get_def)
  with query_collection_calls[of env "JStr ''default''" "query st"
      "config_get (node_config cfgs nid) ''embeddingModel'' (JStr ''openai'')" 3 "tr @ [Step nid]"]
    step
  show "\<exists>more. snd (execute_node env nodes cfgs nid st tr) =
            tr @ Step nid # GetCollection (JStr ''default'') # more"
    by auto
next
  assume kb: "List.find (\<lambda>n. node_id n = nid) nodes = Some nd \<and> componentType nd = ''knowledgeBase''"
    and omit: "node_config cfgs nid ''embeddingModel'' = None \<and>
       get_collection env (tr @ [Step nid])
         (config_get (node_config cfgs nid) ''collectionName'' (JStr ''default'')) = None"
  from kb have step: "snd (execute_node env nodes cfgs nid st tr) = snd (retrieve_at env cfgs nid st tr)"
    by (auto simp: kb_step split: prod.splits sum.splits)
  from omit have "config_get (node_config cfgs nid) ''embeddingModel'' (JStr ''openai'') = JStr ''openai''"
    by (simp add: config_get_def)
  with query_collection_calls[of env
      "config_get (node_config cfgs nid) ''collectionName'' (JStr ''default'')" "query st"
      "JStr ''openai''" 3 "tr @ [Step nid]"]
    step omit
  show "\<exists>more. snd (execute_node env nodes cfgs nid st tr) =
            tr @ Step nid #
            GetCollection (config_get (node_config cfgs nid) ''collectionName'' (JStr ''default'')) #
            OpenAIEmbeddings [query st] # more"
    by auto
next
  fix results tr'
  assume kb: "List.find (\<lambda>n. node_id n = nid) nodes = Some nd \<and> componentType nd = ''knowledgeBase''"
    and ok: "retrieve_at env cfgs nid st tr = (Inr results, tr')"
  then show "execute_node env nodes cfgs nid st tr =
           (Inr (st\<lparr>context' := Some (join ''\<newline>\<newline>'' (map fst results))\<rparr>), tr')"
    by (auto simp: kb_step)
qed

subsection \<open>The state returned\<close>

lemma execute_node_query:
  "execute_node env nodes cfgs nid st tr = (Inr st', tr') \<Longrightarrow> query st' = query st"
  by (auto simp: execute_node_def Let_def split: option.splits if_splits prod.splits sum.splits)

lemma run_nodes_query:
  "run_nodes env nodes cfgs xs st tr = (Inr st', tr') \<Longrightarrow> query st' = query st"
proof (induction xs arbitrary: st tr)
  case Nil
  then show ?case by simp
next
  case (Cons x xs)
  then show ?case
    by (auto split: prod.splits sum.splits dest: execute_node_query)
qed

lemma execute_node_metadata:
  assumes "\<forall>pd. List.find (\<lambda>n. node_id n = nid) nodes = Some pd \<longrightarrow> componentType pd \<noteq> ''llmEngine''"
    and "execute_node env nodes cfgs nid st tr = (Inr st', tr')"
  shows "metadata st' = metadata st"
  using assms
  by (auto simp: execute_node_def Let_def split: option.splits if_splits prod.splits sum.splits)

lemma run_nodes_metadata:
  assumes "\<forall>p \<in> set xs. \<forall>pd. List.find (\<lambda>n. node_id n = p) nodes = Some pd \<longrightarrow>
             componentType pd \<noteq> ''llmEngine''"
    and "run_nodes env nodes cfgs xs st tr = (Inr st', tr')"
  shows "metadata st' = metadata st"
  using assms
proof (induction xs arbitrary: st tr)
  case Nil
  then show ?case by simp
next
  case (Cons x xs)
  from Cons.prems(2) obtain st1 tr1 where
    s1: "execute_node env nodes cfgs x st tr = (Inr st1, tr1)"
    and r1: "run_nodes env nodes cfgs xs st1 tr1 = (Inr st', tr')"
    by (auto split: prod.splits sum.splits)
  from Cons.prems(1) have "\<forall>pd. List.find (\<lambda>n. node_id n = x) nodes = Some pd \<longrightarrow>
      componentType pd \<noteq> ''llmEngine''" by simp
  from execute_node_metadata[OF this s1] have "metadata st1 = metadata st" .
  moreover from Cons.prems(1) have "\<forall>p \<in> set xs. \<forall>pd. List.find (\<lambda>n. node_id n = p) nodes = Some pd \<longrightarrow>
             componentType pd \<noteq> ''llmEngine''" by simp
  from Cons.IH[OF this r1] have "metadata st' = metadata st1" .
  ultimately show ?case by simp
qed

text \<open>
  Claim C8, as amended. Whenever \<open>execute_workflow\<close> returns a value, that value is the
  state the loop over the order ends with, all of it (query, context, response,
  metadata), and its query is the one given. Its metadata is absent when the order holds
  no generation node. After a run whose last generation node is \<open>nid\<close>, the metadata
  holds the model identifier of the configuration of \<open>nid\<close> (default \<^verbatim>\<open>"gpt-4"\<close>) and
  the text that the web search of that step returned, or \<open>None\<close> when web search was
  not enabled.
\<close>

theorem returned_state_and_metadata:
  assumes ret: "execute_workflow env q nodes edges cfgs = Some (Inr r, tr_end)"
  shows "\<exists>order. build_execution_order nodes edges = Some (Inr order) \<and>
           run_nodes env nodes cfgs order (initial_state q) [] = (Inr r, tr_end) \<and>
           query r = q \<and>
           ((\<forall>p \<in> set order. \<forall>pd. List.find (\<lambda>n. node_id n = p) nodes = Some pd \<longrightarrow>
                componentType pd \<noteq> ''llmEngine'') \<longrightarrow> metadata r = None) \<and>
           (\<forall>pre nid post nd st tr.
              order = pre @ nid # post \<and>
              run_nodes env nodes cfgs pre (initial_state q) [] = (Inr st, tr) \<and>
              List.find (\<lambda>n. node_id n = nid) nodes = Some nd \<and>
              componentType nd = ''llmEngine'' \<and>
              (\<forall>p \<in> set post. \<forall>pd. List.find (\<lambda>n. node_id n = p) nodes = Some pd \<longrightarrow>
                  componentType pd \<noteq> ''llmEngine'') \<longrightarrow>
              metadata r =
                Some \<lparr>model = config_get (node_config cfgs nid) ''model'' (JStr ''gpt-4''),
                      web_context =
                        (if truthy (config_get (node_config cfgs nid) ''enableWebSearch'' (JBool False))
                         then (case web_search env (tr @ [Step nid]) q
                                      (config_get (node_config cfgs nid) ''searchProvider''
                                         (JStr ''serpapi'')) of
                                 Inr w \<Rightarrow> Some w
                               | Inl err \<Rightarrow> None)
                         else None)\<rparr>)"
proof -
  from ret obtain order where ord: "build_execution_order nodes edges = Some (Inr order)"
    and run: "run_nodes env nodes cfgs order (initial_state q) [] = (Inr r, tr_end)"
    by (auto simp: execute_workflow_def split: option.splits sum.splits)
  from run_nodes_query[OF run] have qr: "query r = q" by (simp add: initial_state_def)
  have none: "metadata r = None"
    if "\<forall>p \<in> set order. \<forall>pd. List.find (\<lambda>n. node_id n = p) nodes = Some pd \<longrightarrow>
                componentType pd \<noteq> ''llmEngine''"
    using run_nodes_metadata[OF that run] by (simp add: initial_state_def)
  have last: "metadata r =
                Some \<lparr>model = config_get (node_config cfgs nid) ''model'' (JStr ''gpt-4''),
                      web_context =
                        (if truthy (config_get (node_config cfgs nid) ''enableWebSearch'' (JBool False))
                         then (case web_search env (tr @ [Step nid]) q
                                      (config_get (node_config cfgs nid) ''searchProvider''
                                         (JStr ''serpapi'')) of
                                 Inr w \<Rightarrow> Some w
                               | Inl err \<Rightarrow> None)
                         else None)\<rparr>"
    if split: "order = pre @ nid # post"
      and pre: "run_nodes env nodes cfgs pre (initial_state q) [] = (Inr st, tr)"
      and nd: "List.find (\<lambda>n. node_id n = nid) nodes = Some nd"
      and ty: "componentType nd = ''llmEngine''"
      and later: "\<forall>p \<in> set post. \<forall>pd. List.find (\<lambda>n. node_id n = p) nodes = Some pd \<longrightarrow>
                  componentType pd \<noteq> ''llmEngine''"
    for pre nid post nd st tr
  proof -
    from run_nodes_query[OF pre] have qs: "query st = q" by (simp add: initial_state_def)
    from run pre split have "run_nodes env nodes cfgs (nid # post) st tr = (Inr r, tr_end)"
      by (simp add: run_nodes_append)
    then obtain st1 tr1 where s1: "execute_node env nodes cfgs nid st tr = (Inr st1, tr1)"
      and r1: "run_nodes env nodes cfgs post st1 tr1 = (Inr r, tr_end)"
      by (auto split: prod.splits sum.splits)
    from s1 llm_step[OF nd ty, of env cfgs st tr] obtain llm where
      g: "generate_at env cfgs nid st tr = (Inr llm, tr1)"
      and st1: "st1 = st\<lparr>response := Some (llm_text llm),
                    metadata := Some \<lparr>model = llm_model llm, web_context = llm_web_context llm\<rparr>\<rparr>"
      by (auto split: prod.splits sum.splits)
    from generate_response_result[OF g] st1 qs
    have "metadata st1 =
           Some \<lparr>model = config_get (node_config cfgs nid) ''model'' (JStr ''gpt-4''),
                 web_context =
                   (if truthy (config_get (node_config cfgs nid) ''enableWebSearch'' (JBool False))
                    then (case web_search env (tr @ [Step nid]) q
                                 (config_get (node_config cfgs nid) ''searchProvider'' (JStr ''serpapi'')) of
                            Inr w \<Rightarrow> Some w
                          | Inl err \<Rightarrow> None)
                    else None)\<rparr>"
      by simp
    with run_nodes_metadata[OF later r1] show ?thesis by simp
  qed
  from ord run qr none last show ?thesis by blast
qed

subsection \<open>Runs of the example graphs\<close>

lemma chain_order:
  "build_execution_order chain_nodes chain_edges = Some (Inr [''q'', ''kb'', ''llm'', ''outp''])"
  by (simp add: build_execution_order_def chain_nodes_def chain_edges_def init_graph_def
      find_start_def is_userQuery_def dfs_def dfs_for_Cons dfs_for_Nil graph_get_def)

lemma lookup_order:
  "build_execution_order lookup_nodes lookup_edges = Some (Inr [''q'', ''kb'', ''outp''])"
  by (simp add: build_execution_order_def lookup_nodes_def lookup_edges_def init_graph_def
      find_start_def is_userQuery_def dfs_def dfs_for_Cons dfs_for_Nil graph_get_def)

theorem execute_workflow_without_entry_witness:
  "filter is_userQuery headless_nodes = [] \<and>
   execute_workflow mock_env ''What is X?'' headless_nodes headless_edges Map.empty =
     Some (Inl (ValueError ''No User Query component found''), [])"
proof -
  have none: "filter is_userQuery headless_nodes = []"
    by (simp add: headless_nodes_def is_userQuery_def)
  have "source ` set headless_edges \<subseteq> node_id ` set headless_nodes"
    by (simp add: headless_nodes_def headless_edges_def)
  with execute_workflow_without_entry[OF none, of mock_env "''What is X?''" headless_edges Map.empty]
    none show ?thesis by blast
qed

text \<open>
  Claim C2 as stated fails: without a query node, an edge from an undeclared source
  makes the run end in a \<^verbatim>\<open>KeyError\<close>, not in the missing-entry error.
\<close>

theorem undeclared_source_raises_key_error:
  "filter is_userQuery ghost_nodes = [] \<and>
   execute_workflow mock_env ''What is X?'' ghost_nodes ghost_edges Map.empty =
     Some (Inl (KeyError ''ghost''), [])"
  by (simp add: execute_workflow_def build_execution_order_def ghost_nodes_def ghost_edges_def
      init_graph_def is_userQuery_def)

theorem unknown_component_type_skipped_witness:
  "List.find (\<lambda>n. node_id n = ''note'') plain_nodes =
     Some \<lparr>node_id = ''note'', componentType = ''comment''\<rparr> \<and>
   ''comment'' \<notin> {''userQuery'', ''knowledgeBase'', ''llmEngine'', ''output''} \<and>
   execute_node mock_env plain_nodes Map.empty ''note'' (initial_state ''hi'') [Step ''q''] =
     (Inr (initial_state ''hi''), [Step ''q'', Step ''note''])"
proof -
  have f: "List.find (\<lambda>n. node_id n = ''note'') plain_nodes =
     Some \<lparr>node_id = ''note'', componentType = ''comment''\<rparr>"
    by (simp add: plain_nodes_def)
  have t: "componentType \<lparr>node_id = ''note'', componentType = ''comment''\<rparr>
      \<notin> {''userQuery'', ''knowledgeBase'', ''llmEngine'', ''output''}" by simp
  from unknown_component_type_skipped[OF f t, of mock_env Map.empty "initial_state ''hi''" "[Step ''q'']"]
    f show ?thesis by simp
qed

theorem passthrough_nodes_leave_state_witness:
  "list_all (\<lambda>n. componentType n = ''userQuery'' \<or> componentType n = ''output'') bare_nodes \<and>
   source ` set bare_edges \<union> target ` set bare_edges \<subseteq> node_id ` set bare_nodes \<and>
   find_start bare_nodes = Some ''q'' \<and>
   (\<exists>tr'. execute_workflow mock_env ''hi'' bare_nodes bare_edges Map.empty =
       Some (Inr (initial_state ''hi''), tr')) \<and>
   execute_node mock_env bare_nodes Map.empty ''outp'' (initial_state ''hi'') [Step ''q''] =
     (Inr (initial_state ''hi''), [Step ''q'', Step ''outp''])"
proof -
  have a: "\<forall>n \<in> set bare_nodes. componentType n = ''userQuery'' \<or> componentType n = ''output''"
    by (simp add: bare_nodes_def)
  have b: "source ` set bare_edges \<union> target ` set bare_edges \<subseteq> node_id ` set bare_nodes"
    by (simp add: bare_nodes_def bare_edges_def)
  have c: "find_start bare_nodes = Some ''q''"
    by (simp add: find_start_def bare_nodes_def is_userQuery_def)
  have d: "List.find (\<lambda>n. node_id n = ''outp'') bare_nodes =
      Some \<lparr>node_id = ''outp'', componentType = ''output''\<rparr>"
    by (simp add: bare_nodes_def)
  from passthrough_nodes_leave_state[of "''outp''" bare_nodes
      "\<lparr>node_id = ''outp'', componentType = ''output''\<rparr>" mock_env Map.empty
      "initial_state ''hi''" "[Step ''q'']" "''hi''" bare_edges] a b c d
  show ?thesis by (simp add: list_all_iff)
qed

lemma chain_before_llm:
  "run_nodes failing_llm_env chain_nodes Map.empty [''q'', ''kb''] (initial_state ''What is X?'') [] =
   (Inr \<lparr>query = ''What is X?'',
         context' = Some ''X is a thing.\<newline>\<newline>X was invented in 1990.'',
         response = None, metadata = None\<rparr>,
    [Step ''q'', Step ''kb'', GetCollection (JStr ''default''),
     OpenAIEmbeddings [''What is X?''], CollectionQuery (JStr ''default'') [1 / 2] 3])"
  by (simp add: run_defs chain_nodes_def failing_llm_env_def mock_env_def)

theorem generation_failure_aborts_run_witness:
  "build_execution_order chain_nodes chain_edges = Some (Inr ([''q'', ''kb''] @ ''llm'' # [''outp''])) \<and>
   List.find (\<lambda>n. node_id n = ''llm'') chain_nodes =
     Some \<lparr>node_id = ''llm'', componentType = ''llmEngine''\<rparr> \<and>
   execute_workflow failing_llm_env ''What is X?'' chain_nodes chain_edges Map.empty =
     Some (Inl (ExternalError ''rate limit''),
       [Step ''q'', Step ''kb'', GetCollection (JStr ''default''),
        OpenAIEmbeddings [''What is X?''], CollectionQuery (JStr ''default'') [1 / 2] 3,
        Step ''llm'',
        OpenAIChat (JStr ''gpt-4'')
          [(''user'', JStr ''Context:\<newline>X is a thing.\<newline>\<newline>X was invented in 1990.\<newline>\<newline>Question: What is X?'')]
          (JNum (7 / 10))])"
proof -
  have ord: "build_execution_order chain_nodes chain_edges =
      Some (Inr ([''q'', ''kb''] @ ''llm'' # [''outp'']))"
    using chain_order by simp
  have nd: "List.find (\<lambda>n. node_id n = ''llm'') chain_nodes =
     Some \<lparr>node_id = ''llm'', componentType = ''llmEngine''\<rparr>"
    by (simp add: chain_nodes_def)
  have ty: "componentType \<lparr>node_id = ''llm'', componentType = ''llmEngine''\<rparr> = ''llmEngine''"
    by simp
  have fail: "generate_at failing_llm_env Map.empty ''llm''
       \<lparr>query = ''What is X?'',
         context' = Some ''X is a thing.\<newline>\<newline>X was invented in 1990.'',
         response = None, metadata = None\<rparr>
       [Step ''q'', Step ''kb'', GetCollection (JStr ''default''),
        OpenAIEmbeddings [''What is X?''], CollectionQuery (JStr ''default'') [1 / 2] 3] =
     (Inl (ExternalError ''rate limit''),
       [Step ''q'', Step ''kb'', GetCollection (JStr ''default''),
        OpenAIEmbeddings [''What is X?''], CollectionQuery (JStr ''default'') [1 / 2] 3,
        Step ''llm'',
        OpenAIChat (JStr ''gpt-4'')
          [(''user'', JStr ''Context:\<newline>X is a thing.\<newline>\<newline>X was invented in 1990.\<newline>\<newline>Question: What is X?'')]
          (JNum (7 / 10))])"
    by (simp add: run_defs failing_llm_env_def mock_env_def)
  from generation_failure_aborts_run[OF ord chain_before_llm nd ty fail] ord nd
  show ?thesis by blast
qed

theorem retrieval_failure_absorbed_witness:
  "List.find (\<lambda>n. node_id n = ''kb'') chain_nodes =
     Some \<lparr>node_id = ''kb'', componentType = ''knowledgeBase''\<rparr> \<and>
   retrieve_at failing_store_env Map.empty ''kb'' (initial_state ''What is X?'') [Step ''q''] =
     (Inl (ExternalError ''no such collection''),
      [Step ''q'', Step ''kb'', GetCollection (JStr ''default'')]) \<and>
   execute_node failing_store_env chain_nodes Map.empty ''kb'' (initial_state ''What is X?'') [Step ''q''] =
     (Inr ((initial_state ''What is X?'')\<lparr>context' := None\<rparr>),
      [Step ''q'', Step ''kb'', GetCollection (JStr ''default'')]) \<and>
   execute_workflow failing_store_env ''What is X?'' chain_nodes chain_edges Map.empty =
     Some (Inr \<lparr>query = ''What is X?'', context' = None, response = Some ''What is X?'',
                metadata = Some \<lparr>model = JStr ''gpt-4'', web_context = None\<rparr>\<rparr>,
           [Step ''q'', Step ''kb'', GetCollection (JStr ''default''), Step ''llm'',
            OpenAIChat (JStr ''gpt-4'') [(''user'', JStr ''What is X?'')] (JNum (7 / 10)),
            Step ''outp''])"
proof -
  have nd: "List.find (\<lambda>n. node_id n = ''kb'') chain_nodes =
     Some \<lparr>node_id = ''kb'', componentType = ''knowledgeBase''\<rparr>"
    by (simp add: chain_nodes_def)
  have ty: "componentType \<lparr>node_id = ''kb'', componentType = ''knowledgeBase''\<rparr> = ''knowledgeBase''"
    by simp
  have fail: "retrieve_at failing_store_env Map.empty ''kb'' (initial_state ''What is X?'') [Step ''q''] =
     (Inl (ExternalError ''no such collection''),
      [Step ''q'', Step ''kb'', GetCollection (JStr ''default'')])"
    by (simp add: run_defs failing_store_env_def mock_env_def)
  have run: "execute_workflow failing_store_env ''What is X?'' chain_nodes chain_edges Map.empty =
     Some (Inr \<lparr>query = ''What is X?'', context' = None, response = Some ''What is X?'',
                metadata = Some \<lparr>model = JStr ''gpt-4'', web_context = None\<rparr>\<rparr>,
           [Step ''q'', Step ''kb'', GetCollection (JStr ''default''), Step ''llm'',
            OpenAIChat (JStr ''gpt-4'') [(''user'', JStr ''What is X?'')] (JNum (7 / 10)),
            Step ''outp''])"
  proof -
    have "run_nodes failing_store_env chain_nodes Map.empty [''q'', ''kb'', ''llm'', ''outp'']
        (initial_state ''What is X?'') [] =
      (Inr \<lparr>query = ''What is X?'', context' = None, response = Some ''What is X?'',
                metadata = Some \<lparr>model = JStr ''gpt-4'', web_context = None\<rparr>\<rparr>,
           [Step ''q'', Step ''kb'', GetCollection (JStr ''default''), Step ''llm'',
            OpenAIChat (JStr ''gpt-4'') [(''user'', JStr ''What is X?'')] (JNum (7 / 10)),
            Step ''outp''])"
      by (simp add: run_defs chain_nodes_def failing_store_env_def mock_env_def)
    then show ?thesis by (simp add: execute_workflow_def chain_order)
  qed
  from retrieval_failure_absorbed[OF nd ty fail] nd fail run show ?thesis by blast
qed

theorem prompt_sent_to_model_witness:
  "truthy (JBool True) \<and>
   web_search mock_env [] ''What is X?'' (JStr ''serpapi'') = Inr ''X: a thing'' \<and>
   sent_prompt (last (snd (generate_response mock_env ''What is X?'' (Some ''X is a thing.'') JNone
       (JStr ''openai'') (JStr ''gpt-4'') (JNum (7 / 10)) (JBool True) (JStr ''serpapi'') []))) =
     Some ''Web Search Results:\<newline>X: a thing\<newline>\<newline>Context:\<newline>X is a thing.\<newline>\<newline>Question: What is X?''"
proof -
  have h: "truthy (JBool True) \<longrightarrow>
      web_search mock_env [] ''What is X?'' (JStr ''serpapi'') = Inr ''X: a thing''"
    by (simp add: mock_env_def)
  have w: "web_search mock_env [] ''What is X?'' (JStr ''serpapi'') = Inr ''X: a thing''"
    by (simp add: mock_env_def)
  from prompt_sent_to_model[OF h, of "Some ''X is a thing.''" JNone "JStr ''openai''"
      "JStr ''gpt-4''" "JNum (7 / 10)"] w
  show ?thesis by simp
qed

text \<open>
  Claim C6 as stated fails for a context that is present and empty. A retrieval that
  finds no chunk leaves the empty string in the state, and for it the prompt sent is the
  query alone, which is not the template.
\<close>

theorem empty_context_prompt_is_query:
  "run_nodes empty_store_env chain_nodes Map.empty [''q'', ''kb''] (initial_state ''What is X?'') [] =
     (Inr \<lparr>query = ''What is X?'', context' = Some [], response = None, metadata = None\<rparr>,
      [Step ''q'', Step ''kb'', GetCollection (JStr ''default''),
       OpenAIEmbeddings [''What is X?''], CollectionQuery (JStr ''default'') [1 / 2] 3]) \<and>
   snd (generate_response empty_store_env ''What is X?'' (Some []) JNone (JStr ''openai'')
          (JStr ''gpt-4'') (JNum (7 / 10)) (JBool False) (JStr ''serpapi'') []) =
     [OpenAIChat (JStr ''gpt-4'') [(''user'', JStr ''What is X?'')] (JNum (7 / 10))] \<and>
   ''What is X?'' \<noteq> ''Context:\<newline>'' @ [] @ ''\<newline>\<newline>Question: '' @ ''What is X?''"
  by (simp add: run_defs chain_nodes_def empty_store_env_def mock_env_def)

theorem retrieval_top3_defaults_join_witness:
  "List.find (\<lambda>n. node_id n = ''kb'') chain_nodes =
     Some \<lparr>node_id = ''kb'', componentType = ''knowledgeBase''\<rparr> \<and>
   node_config Map.empty ''kb'' ''collectionName'' = None \<and>
   retrieve_at mock_env Map.empty ''kb'' (initial_state ''What is X?'') [Step ''q''] =
     (Inr [(''X is a thing.'', 1 / 10), (''X was invented in 1990.'', 1 / 5)],
      [Step ''q'', Step ''kb'', GetCollection (JStr ''default''),
       OpenAIEmbeddings [''What is X?''], CollectionQuery (JStr ''default'') [1 / 2] 3]) \<and>
   execute_node mock_env chain_nodes Map.empty ''kb'' (initial_state ''What is X?'') [Step ''q''] =
     (Inr ((initial_state ''What is X?'')
             \<lparr>context' := Some ''X is a thing.\<newline>\<newline>X was invented in 1990.''\<rparr>),
      [Step ''q'', Step ''kb'', GetCollection (JStr ''default''),
       OpenAIEmbeddings [''What is X?''], CollectionQuery (JStr ''default'') [1 / 2] 3])"
proof -
  have nd: "List.find (\<lambda>n. node_id n = ''kb'') chain_nodes =
     Some \<lparr>node_id = ''kb'', componentType = ''knowledgeBase''\<rparr>"
    by (simp add: chain_nodes_def)
  have om: "node_config Map.empty ''kb'' ''collectionName'' = None"
    by (simp add: node_config_def)
  have ok: "retrieve_at mock_env Map.empty ''kb'' (initial_state ''What is X?'') [Step ''q''] =
     (Inr [(''X is a thing.'', 1 / 10), (''X was invented in 1990.'', 1 / 5)],
      [Step ''q'', Step ''kb'', GetCollection (JStr ''default''),
       OpenAIEmbeddings [''What is X?''], CollectionQuery (JStr ''default'') [1 / 2] 3])"
    by (simp add: run_defs mock_env_def)
  from retrieval_top3_defaults_join[of mock_env "''What is X?''" chain_nodes chain_edges Map.empty
      "''kb''" "\<lparr>node_id = ''kb'', componentType = ''knowledgeBase''\<rparr>"
      "initial_state ''What is X?''" "[Step ''q'']"] nd ok
  have "execute_node mock_env chain_nodes Map.empty ''kb'' (initial_state ''What is X?'') [Step ''q''] =
     (Inr ((initial_state ''What is X?'')
             \<lparr>context' := Some (join ''\<newline>\<newline>''
                 (map fst [(''X is a thing.'', 1 / 10 :: rat), (''X was invented in 1990.'', 1 / 5)]))\<rparr>),
      [Step ''q'', Step ''kb'', GetCollection (JStr ''default''),
       OpenAIEmbeddings [''What is X?''], CollectionQuery (JStr ''default'') [1 / 2] 3])"
    by simp
  with nd om ok show ?thesis by simp
qed

lemma web_chain_before_llm:
  "run_nodes mock_env chain_nodes web_configs [''q'', ''kb''] (initial_state ''What is X?'') [] =
   (Inr \<lparr>query = ''What is X?'',
         context' = Some ''X is a thing.\<newline>\<newline>X was invented in 1990.'',
         response = None, metadata = None\<rparr>,
    [Step ''q'', Step ''kb'', GetCollection (JStr ''default''),
     OpenAIEmbeddings [''What is X?''], CollectionQuery (JStr ''default'') [1 / 2] 3])"
  by (simp add: run_defs chain_nodes_def mock_env_def web_configs_def)

lemma web_chain_run:
  "run_nodes mock_env chain_nodes web_configs [''q'', ''kb'', ''llm'', ''outp'']
     (initial_state ''What is X?'') [] =
   (Inr \<lparr>query = ''What is X?'',
         context' = Some ''X is a thing.\<newline>\<newline>X was invented in 1990.'',
         response = Some ''Web Search Results:\<newline>X: a thing\<newline>\<newline>Context:\<newline>X is a thing.\<newline>\<newline>X was invented in 1990.\<newline>\<newline>Question: What is X?'',
         metadata = Some \<lparr>model = JStr ''gemini-pro'', web_context = Some ''X: a thing''\<rparr>\<rparr>,
    [Step ''q'', Step ''kb'', GetCollection (JStr ''default''),
     OpenAIEmbeddings [''What is X?''], CollectionQuery (JStr ''default'') [1 / 2] 3,
     Step ''llm'', WebSearch ''What is X?'' (JStr ''serpapi''),
     GeminiGenerate (JStr ''gemini-pro'')
       ''Web Search Results:\<newline>X: a thing\<newline>\<newline>Context:\<newline>X is a thing.\<newline>\<newline>X was invented in 1990.\<newline>\<newline>Question: What is X?'',
     Step ''outp''])"
  by (simp add: run_defs chain_nodes_def mock_env_def web_configs_def)

theorem returned_state_and_metadata_witness:
  "build_execution_order chain_nodes chain_edges = Some (Inr ([''q'', ''kb''] @ ''llm'' # [''outp''])) \<and>
   List.find (\<lambda>n. node_id n = ''llm'') chain_nodes =
     Some \<lparr>node_id = ''llm'', componentType = ''llmEngine''\<rparr> \<and>
   list_all (\<lambda>p. map_option componentType (List.find (\<lambda>n. node_id n = p) chain_nodes)
                   \<noteq> Some ''llmEngine'') [''outp''] \<and>
   map_option fst (execute_workflow mock_env ''What is X?'' chain_nodes chain_edges web_configs) =
     Some (Inr \<lparr>query = ''What is X?'',
         context' = Some ''X is a thing.\<newline>\<newline>X was invented in 1990.'',
         response = Some ''Web Search Results:\<newline>X: a thing\<newline>\<newline>Context:\<newline>X is a thing.\<newline>\<newline>X was invented in 1990.\<newline>\<newline>Question: What is X?'',
         metadata = Some \<lparr>model = JStr ''gemini-pro'', web_context = Some ''X: a thing''\<rparr>\<rparr>) \<and>
   config_get (node_config web_configs ''llm'') ''model'' (JStr ''gpt-4'') = JStr ''gemini-pro'' \<and>
   web_search mock_env
     [Step ''q'', Step ''kb'', GetCollection (JStr ''default''),
      OpenAIEmbeddings [''What is X?''], CollectionQuery (JStr ''default'') [1 / 2] 3, Step ''llm'']
     ''What is X?'' (JStr ''serpapi'') = Inr ''X: a thing''"
proof -
  have ord: "build_execution_order chain_nodes chain_edges =
      Some (Inr ([''q'', ''kb''] @ ''llm'' # [''outp'']))"
    using chain_order by simp
  have nd: "List.find (\<lambda>n. node_id n = ''llm'') chain_nodes =
     Some \<lparr>node_id = ''llm'', componentType = ''llmEngine''\<rparr>"
    by (simp add: chain_nodes_def)
  have ty: "componentType \<lparr>node_id = ''llm'', componentType = ''llmEngine''\<rparr> = ''llmEngine''"
    by simp
  have later: "\<forall>p \<in> set [''outp'']. \<forall>pd. List.find (\<lambda>n. node_id n = p) chain_nodes = Some pd \<longrightarrow>
                  componentType pd \<noteq> ''llmEngine''"
    by (simp add: chain_nodes_def)
  have ret: "execute_workflow mock_env ''What is X?'' chain_nodes chain_edges web_configs =
     Some (Inr \<lparr>query = ''What is X?'',
         context' = Some ''X is a thing.\<newline>\<newline>X was invented in 1990.'',
         response = Some ''Web Search Results:\<newline>X: a thing\<newline>\<newline>Context:\<newline>X is a thing.\<newline>\<newline>X was invented in 1990.\<newline>\<newline>Question: What is X?'',
         metadata = Some \<lparr>model = JStr ''gemini-pro'', web_context = Some ''X: a thing''\<rparr>\<rparr>,
      [Step ''q'', Step ''kb'', GetCollection (JStr ''default''),
       OpenAIEmbeddings [''What is X?''], CollectionQuery (JStr ''default'') [1 / 2] 3,
       Step ''llm'', WebSearch ''What is X?'' (JStr ''serpapi''),
       GeminiGenerate (JStr ''gemini-pro'')
         ''Web Search Results:\<newline>X: a thing\<newline>\<newline>Context:\<newline>X is a thing.\<newline>\<newline>X was invented in 1990.\<newline>\<newline>Question: What is X?'',
       Step ''outp''])"
    by (simp add: execute_workflow_def chain_order web_chain_run del: run_nodes.simps)
  have m: "config_get (node_config web_configs ''llm'') ''model'' (JStr ''gpt-4'') = JStr ''gemini-pro''"
    by (simp add: config_get_def node_config_def web_configs_def)
  have w: "web_search mock_env
     [Step ''q'', Step ''kb'', GetCollection (JStr ''default''),
      OpenAIEmbeddings [''What is X?''], CollectionQuery (JStr ''default'') [1 / 2] 3, Step ''llm'']
     ''What is X?'' (JStr ''serpapi'') = Inr ''X: a thing''"
    by (simp add: mock_env_def)
  have l: "list_all (\<lambda>p. map_option componentType (List.find (\<lambda>n. node_id n = p) chain_nodes)
                   \<noteq> Some ''llmEngine'') [''outp'']"
    by (simp add: chain_nodes_def)
  let ?r = "\<lparr>query = ''What is X?'',
         context' = Some ''X is a thing.\<newline>\<newline>X was invented in 1990.'',
         response = Some ''Web Search Results:\<newline>X: a thing\<newline>\<newline>Context:\<newline>X is a thing.\<newline>\<newline>X was invented in 1990.\<newline>\<newline>Question: What is X?'',
         metadata = Some \<lparr>model = JStr ''gemini-pro'', web_context = Some ''X: a thing''\<rparr>\<rparr>"
  from returned_state_and_metadata[OF ret] obtain order where
    o: "build_execution_order chain_nodes chain_edges = Some (Inr order)"
    and q: "query ?r = ''What is X?''"
    and last: "\<forall>pre nid post nd st tr.
              order = pre @ nid # post \<and>
              run_nodes mock_env chain_nodes web_configs pre (initial_state ''What is X?'') [] = (Inr st, tr) \<and>
              List.find (\<lambda>n. node_id n = nid) chain_nodes = Some nd \<and>
              componentType nd = ''llmEngine'' \<and>
              (\<forall>p \<in> set post. \<forall>pd. List.find (\<lambda>n. node_id n = p) chain_nodes = Some pd \<longrightarrow>
                  componentType pd \<noteq> ''llmEngine'') \<longrightarrow>
              metadata ?r =
                Some \<lparr>model = config_get (node_config web_configs nid) ''model'' (JStr ''gpt-4''),
                      web_context =
                        (if truthy (config_get (node_config web_configs nid) ''enableWebSearch'' (JBool False))
                         then (case web_search mock_env (tr @ [Step nid]) ''What is X?''
                                      (config_get (node_config web_configs nid) ''searchProvider''
                                         (JStr ''serpapi'')) of
                                 Inr w \<Rightarrow> Some w
                               | Inl err \<Rightarrow> None)
                         else None)\<rparr>"
    by blast
  from o ord have "order = [''q'', ''kb''] @ ''llm'' # [''outp'']" by simp
  with last web_chain_before_llm nd ty later
  have "metadata ?r =
      Some \<lparr>model = config_get (node_config web_configs ''llm'') ''model'' (JStr ''gpt-4''),
            web_context =
              (if truthy (config_get (node_config web_configs ''llm'') ''enableWebSearch'' (JBool False))
               then (case web_search mock_env
                       ([Step ''q'', Step ''kb'', GetCollection (JStr ''default''),
                         OpenAIEmbeddings [''What is X?''],
                         CollectionQuery (JStr ''default'') [1 / 2] 3] @ [Step ''llm''])
                       ''What is X?''
                       (config_get (node_config web_configs ''llm'') ''searchProvider''
                          (JStr ''serpapi'')) of
                       Inr w \<Rightarrow> Some w
                     | Inl err \<Rightarrow> None)
               else None)\<rparr>"
    by blast
  with ord nd l ret m w show ?thesis by simp
qed

lemma lookup_run_mock:
  "run_nodes mock_env lookup_nodes Map.empty [''q'', ''kb'', ''outp''] (initial_state ''What is X?'') [] =
     (Inr \<lparr>query = ''What is X?'',
            context' = Some ''X is a thing.\<newline>\<newline>X was invented in 1990.'',
            response = None, metadata = None\<rparr>,
      [Step ''q'', Step ''kb'', GetCollection (JStr ''default''),
       OpenAIEmbeddings [''What is X?''], CollectionQuery (JStr ''default'') [1 / 2] 3,
       Step ''outp''])"
  by (simp add: run_defs lookup_nodes_def mock_env_def)

lemma lookup_run_empty:
  "run_nodes empty_store_env lookup_nodes Map.empty [''q'', ''kb'', ''outp''] (initial_state ''What is X?'') [] =
     (Inr \<lparr>query = ''What is X?'', context' = Some [], response = None, metadata = None\<rparr>,
      [Step ''q'', Step ''kb'', GetCollection (JStr ''default''),
       OpenAIEmbeddings [''What is X?''], CollectionQuery (JStr ''default'') [1 / 2] 3,
       Step ''outp''])"
  by (simp add: run_defs lookup_nodes_def empty_store_env_def mock_env_def)

text \<open>
  Claim C8 as stated fails: the value returned is not made of query, response and
  metadata alone. Two runs that agree on these three return different values, because
  the context is part of what is returned (and the metadata is absent from both, no
  generation node having run).
\<close>

theorem returned_state_carries_context:
  "map_option fst (execute_workflow mock_env ''What is X?'' lookup_nodes lookup_edges Map.empty) =
     Some (Inr \<lparr>query = ''What is X?'',
                context' = Some ''X is a thing.\<newline>\<newline>X was invented in 1990.'',
                response = None, metadata = None\<rparr>) \<and>
   map_option fst (execute_workflow empty_store_env ''What is X?'' lookup_nodes lookup_edges Map.empty) =
     Some (Inr \<lparr>query = ''What is X?'', context' = Some [], response = None, metadata = None\<rparr>)"
  by (simp add: execute_workflow_def lookup_order lookup_run_mock lookup_run_empty del: run_nodes.simps)

end
